theory Spec2Isabelle
  imports Complex_Main
begin

section \<open>Strings and regular expressions of the classifier\<close>

text \<open>
  A JavaScript string is modelled as a \<^typ>\<open>string\<close>: a list of 8-bit characters, read as
  the code units U+0000 .. U+00FF.
\<close>

definition lowerChar :: "char \<Rightarrow> char" where
  "lowerChar c =
     (let n = (of_char c :: nat)
      in if (65 \<le> n \<and> n \<le> 90) \<or> (192 \<le> n \<and> n \<le> 222 \<and> n \<noteq> 215)
         then char_of (n + 32) else c)"

definition toLowerCase :: "string \<Rightarrow> string" where
  "toLowerCase s = map lowerChar s"

fun startsWith :: "string \<Rightarrow> string \<Rightarrow> bool" where
  "startsWith s [] = True"
| "startsWith [] (p # ps) = False"
| "startsWith (c # cs) (p # ps) = (c = p \<and> startsWith cs ps)"

fun includesStr :: "string \<Rightarrow> string \<Rightarrow> bool" where
  "includesStr [] k = (k = [])"
| "includesStr (c # cs) k = (startsWith (c # cs) k \<or> includesStr cs k)"

text \<open>
  \<open>(s.match(new RegExp(k, 'g')) || []).length\<close> for a keyword \<open>k\<close> without regex
  metacharacters (all keywords of the tables below, none of them empty): the matches are
  taken left to right and do not overlap.  The first argument counts the characters still
  covered by the previous match.
\<close>

fun countMatchesFrom :: "nat \<Rightarrow> string \<Rightarrow> string \<Rightarrow> nat" where
  "countMatchesFrom n [] k = 0"
| "countMatchesFrom (Suc n) (c # cs) k = countMatchesFrom n cs k"
| "countMatchesFrom 0 (c # cs) k =
     (if startsWith (c # cs) k then 1 + countMatchesFrom (length k - 1) cs k
      else countMatchesFrom 0 cs k)"

definition countMatches :: "string \<Rightarrow> string \<Rightarrow> nat" where
  "countMatches s k = countMatchesFrom 0 s k"

text \<open>Character classes \<open>\s\<close>, \<open>\d\<close>, \<open>[a-zA-Z]\<close> and the line terminators of \<open>^\<close> under the \<open>m\<close> flag.\<close>

definition isSpace :: "char \<Rightarrow> bool" where
  "isSpace c = (let n = (of_char c :: nat) in (9 \<le> n \<and> n \<le> 13) \<or> n = 32 \<or> n = 160)"

definition isDigit :: "char \<Rightarrow> bool" where
  "isDigit c = (let n = (of_char c :: nat) in 48 \<le> n \<and> n \<le> 57)"

definition isLetter :: "char \<Rightarrow> bool" where
  "isLetter c = (let n = (of_char c :: nat) in (65 \<le> n \<and> n \<le> 90) \<or> (97 \<le> n \<and> n \<le> 122))"

definition isLineTerminator :: "char \<Rightarrow> bool" where
  "isLineTerminator c = (let n = (of_char c :: nat) in n = 10 \<or> n = 13)"

text \<open>\<open>P\<close> holds of the rest of the string at some line start (\<open>/^.../m\<close>).\<close>

fun atLineStart :: "(string \<Rightarrow> bool) \<Rightarrow> bool \<Rightarrow> string \<Rightarrow> bool" where
  "atLineStart P b [] = (b \<and> P [])"
| "atLineStart P b (c # cs) = ((b \<and> P (c # cs)) \<or> atLineStart P (isLineTerminator c) cs)"

text \<open>\<open>P\<close> holds of the rest of the string at some position.\<close>

fun atSomePosition :: "(string \<Rightarrow> bool) \<Rightarrow> string \<Rightarrow> bool" where
  "atSomePosition P [] = P []"
| "atSomePosition P (c # cs) = (P (c # cs) \<or> atSomePosition P cs)"

text \<open>\<open>\s*\d+\.\s+\<close> as a prefix.\<close>

definition numberedItem :: "string \<Rightarrow> bool" where
  "numberedItem s =
     (let s1 = dropWhile isSpace s; s2 = dropWhile isDigit s1
      in (case s1 of [] \<Rightarrow> False | d # _ \<Rightarrow> isDigit d) \<and>
         (case s2 of c # c' # _ \<Rightarrow> c = CHR ''.'' \<and> isSpace c' | _ \<Rightarrow> False))"

text \<open>\<open>\s*[-*]\s+\<close> as a prefix.\<close>

definition bulletItem :: "string \<Rightarrow> bool" where
  "bulletItem s =
     (case dropWhile isSpace s of
        c # c' # _ \<Rightarrow> (c = CHR ''-'' \<or> c = CHR ''*'') \<and> isSpace c'
      | _ \<Rightarrow> False)"

text \<open>\<open>\/[a-zA-Z][a-zA-Z0-9_-]*\<close> as a prefix: the starred class may match nothing.\<close>

definition slashToken :: "string \<Rightarrow> bool" where
  "slashToken s = (case s of c # c' # _ \<Rightarrow> c = CHR ''/'' \<and> isLetter c' | _ \<Rightarrow> False)"

text \<open>A fence, anything (lazily), a fence: a second fence after the end of some fence.\<close>

definition fencedBlock :: "string \<Rightarrow> bool" where
  "fencedBlock s = (startsWith s ''```'' \<and> includesStr (drop 3 s) ''```'')"

text \<open>\<open>step\s+\d+\<close> as a prefix of the lower-cased text.\<close>

definition stepNumber :: "string \<Rightarrow> bool" where
  "stepNumber s =
     (startsWith s ''step'' \<and>
      (case drop 4 s of
         [] \<Rightarrow> False
       | c # cs \<Rightarrow> isSpace c \<and> (case dropWhile isSpace cs of [] \<Rightarrow> False | d # _ \<Rightarrow> isDigit d)))"

text \<open>
  The eight entries of \<open>STRUCTURAL_PATTERNS\<close>, in the order of the object literal.  The
  patterns with the \<open>i\<close> flag contain ASCII characters only, so they are tested on the
  lower-cased content.
\<close>

definition STRUCTURAL_PATTERNS :: "(string \<times> (string \<Rightarrow> bool)) list" where
  "STRUCTURAL_PATTERNS =
     [(''numberedList'', \<lambda>s. atLineStart numberedItem True s),
      (''bulletList'', \<lambda>s. atLineStart bulletItem True s),
      (''slashCommand'', \<lambda>s. atSomePosition slashToken s),
      (''codeBlock'', \<lambda>s. atSomePosition fencedBlock s),
      (''stepPattern'', \<lambda>s. let l = toLowerCase s in
          atSomePosition stepNumber l \<or> includesStr l ''first'' \<or> includesStr l ''then'' \<or>
          includesStr l ''next'' \<or> includesStr l ''finally''),
      (''examplePattern'', \<lambda>s. let l = toLowerCase s in
          includesStr l ''example'' \<or> includesStr l ''e.g.'' \<or> includesStr l ''for instance''),
      (''notePattern'', \<lambda>s. let l = toLowerCase s in
          includesStr l ''note:'' \<or> includesStr l ''important:'' \<or> includesStr l ''remember:''),
      (''procedurePattern'', \<lambda>s. let l = toLowerCase s in
          includesStr l ''procedure'' \<or> includesStr l ''process'' \<or> includesStr l ''workflow'' \<or>
          includesStr l ''pipeline'')]"

section \<open>Numbers\<close>

text \<open>
  The numbers of the program are IEEE 754 double-precision values.  A finite double is
  modelled as the real number it denotes.  An arithmetic operation of the program is the
  exact operation followed by \<open>roundDouble\<close>, the rounding to the nearest number with a
  significand of 53 bits, ties to the even significand; a decimal literal of the source
  denotes the rounding of its decimal value.  Comparisons, \<open>Math.max\<close> and \<open>Math.min\<close>
  are exact.  The exponent is not bounded: the numbers the classifier computes are 0 or
  lie between 1/100 and a small multiple of the length of the content, far from the
  subnormal range and from overflow.

  \<open>binade x\<close> is the exponent \<open>e\<close> with \<open>2^e \<le> x < 2^(e+1)\<close>, for a positive \<open>x\<close>.
\<close>

function binadeUp :: "real \<Rightarrow> int \<Rightarrow> int" where
  "binadeUp x e = (if 2 \<le> x then binadeUp (x / 2) (e + 1) else e)"
  by pat_completeness auto
termination
proof (relation "measure (\<lambda>(x, e). nat \<lceil>x\<rceil>)")
  fix x :: real and e :: int
  assume "2 \<le> x"
  then have "\<lceil>x / 2\<rceil> < \<lceil>x\<rceil>" by linarith
  moreover have "0 < \<lceil>x\<rceil>" using \<open>2 \<le> x\<close> by linarith
  ultimately show "((x / 2, e + 1), (x, e)) \<in> measure (\<lambda>(x, e). nat \<lceil>x\<rceil>)" by simp
qed simp

function binadeDown :: "real \<Rightarrow> int \<Rightarrow> int" where
  "binadeDown x e = (if 0 < x \<and> x < 1 then binadeDown (x * 2) (e - 1) else e)"
  by pat_completeness auto
termination
proof (relation "measure (\<lambda>(x, e). nat \<lceil>1 / x\<rceil>)")
  fix x :: real and e :: int
  assume a: "0 < x \<and> x < 1"
  define y where "y = 1 / x"
  have y: "1 < y" using a by (simp add: y_def)
  have c: "2 \<le> \<lceil>y\<rceil>" using y by linarith
  have "y / 2 \<le> of_int \<lceil>y\<rceil> / 2" by (simp add: le_of_int_ceiling)
  also have "\<dots> \<le> of_int (\<lceil>y\<rceil> - 1)" using c by simp
  finally have l: "\<lceil>y / 2\<rceil> \<le> \<lceil>y\<rceil> - 1" by (simp only: ceiling_le_iff)
  have h: "1 / (x * 2) = y / 2" by (simp add: y_def)
  have "nat \<lceil>1 / (x * 2)\<rceil> < nat \<lceil>1 / x\<rceil>"
    unfolding h y_def[symmetric] using l c by linarith
  then show "((x * 2, e - 1), (x, e)) \<in> measure (\<lambda>(x, e). nat \<lceil>1 / x\<rceil>)"
    by simp
qed simp

declare binadeUp.simps [simp del] binadeDown.simps [simp del]

definition binade :: "real \<Rightarrow> int" where
  "binade x = (if 1 \<le> x then binadeUp x 0 else binadeDown x 0)"

definition pow2 :: "int \<Rightarrow> real" where
  "pow2 e = (if 0 \<le> e then 2 ^ nat e else 1 / 2 ^ nat (- e))"

definition roundHalfEven :: "real \<Rightarrow> int" where
  "roundHalfEven y =
     (let f = \<lfloor>y\<rfloor>; d = y - of_int f
      in if d < 1 / 2 then f else if 1 / 2 < d then f + 1 else if even f then f else f + 1)"

definition roundDouble :: "real \<Rightarrow> real" where
  "roundDouble x =
     (if x = 0 then 0
      else let e = binade \<bar>x\<bar> - 52 in of_int (roundHalfEven (x / pow2 e)) * pow2 e)"

text \<open>A decimal literal, and \<open>+\<close>, \<open>*\<close> and \<open>/\<close> on doubles.\<close>

definition dbl :: "real \<Rightarrow> real" where
  "dbl x = roundDouble x"

definition dadd :: "real \<Rightarrow> real \<Rightarrow> real" where
  "dadd a b = roundDouble (a + b)"

definition dmul :: "real \<Rightarrow> real \<Rightarrow> real" where
  "dmul a b = roundDouble (a * b)"

definition ddiv :: "real \<Rightarrow> real \<Rightarrow> real" where
  "ddiv a b = roundDouble (a / b)"

section \<open>Keyword tables\<close>

definition SKILL_KEYWORDS :: "string list" where
  "SKILL_KEYWORDS =
     [''how to'', ''pattern:'', ''example:'', ''best practice'', ''approach'',
      ''when working with'', ''technique'', ''method'', ''strategy'',
      ''remember'', ''consider'', ''note that'', ''keep in mind'',
      ''tip:'', ''guideline'', ''recommendation'', ''practice'',
      ''expertise'', ''knowledge'', ''understanding'', ''mastery'']"

definition SUBAGENT_KEYWORDS :: "string list" where
  "SUBAGENT_KEYWORDS =
     [''delegate to'', ''hand off'', ''sub-task'', ''subtask'',
      ''separate context'', ''independent'', ''isolated'', ''spawn'',
      ''claude-'', ''gpt-'', ''haiku'', ''sonnet'', ''model'',
      ''step 1:'', ''first'', ''then'', ''finally'', ''next'',
      ''procedure'', ''workflow'', ''process'', ''pipeline'']"

definition COMMAND_KEYWORDS :: "string list" where
  "COMMAND_KEYWORDS =
     [''run'', ''execute'', ''trigger'', ''invoke'', ''call'',
      ''command'', ''cli'', ''script'', ''tool'',
      ''when user types'', ''usage:'', ''syntax:'',
      ''argument'', ''parameter'', ''flag'', ''option'']"

definition RULE_KEYWORDS :: "string list" where
  "RULE_KEYWORDS =
     [''always'', ''every time'', ''consistently'', ''never'',
      ''you are'', ''your role is'', ''behave as'', ''act as'',
      ''should'', ''must'', ''avoid'', ''ensure'', ''require'',
      ''global'', ''universal'', ''default'', ''baseline'']"

section \<open>Metadata\<close>

text \<open>
  \<open>RuleMetadata\<close> and its extensions \<open>SkillMetadata\<close>, \<open>SubAgentMetadata\<close> and
  \<open>CommandMetadata\<close>, as one record: every optional property is an option, \<open>None\<close> for
  a property that is absent (\<open>undefined\<close>).  \<open>type\<close> is a string, since callers pass values
  outside the enumeration.
\<close>

datatype scope_value = ScopeString string | ScopeArray "string list"

record argument =
  arg_name :: string
  arg_type :: string
  arg_required :: "bool option"

record metadata =
  id_m :: string
  type_m :: "string option"
  alwaysApply :: "bool option"
  scope :: "scope_value option"
  triggers :: "string list option"
  manual :: "bool option"
  priority :: "string option"
  description :: "string option"
  expertise :: "string list option"
  dependencies :: "string list option"
  portability :: "string option"
  examples :: "string list option"
  model :: "string option"
  tools :: "string list option"
  isolatedContext :: "bool option"
  systemPrompt :: "string option"
  trigger :: "string option"
  userInvoked :: "bool option"
  arguments :: "argument list option"

text \<open>Truthiness of an optional string: absent and the empty string are falsy.\<close>

fun truthy :: "string option \<Rightarrow> bool" where
  "truthy None = False"
| "truthy (Some s) = (s \<noteq> [])"

section \<open>Type detection\<close>

record ContentAnalysis =
  skillPatterns :: "string list"
  subagentPatterns :: "string list"
  commandPatterns :: "string list"
  rulePatterns :: "string list"
  structuralFeatures :: "string list"
  keywordDensity :: "string \<rightharpoonup> nat"

record MetadataAnalysis =
  explicitType :: "string option"
  typeHints :: "string list"
  confidence :: real
  conflictingSignals :: "string list"

record AbstractionTypeInfo =
  ati_type :: string
  ati_confidence :: real
  indicators :: "string list"

record scores =
  skill :: real
  subagent :: real
  command :: real
  rule :: real

text \<open>One \<open>forEach\<close> over a keyword table: the hits, in table order, and their densities.\<close>

fun scanKeywords ::
  "string \<Rightarrow> string list \<Rightarrow> string list \<times> (string \<rightharpoonup> nat) \<Rightarrow> string list \<times> (string \<rightharpoonup> nat)" where
  "scanKeywords lc [] acc = acc"
| "scanKeywords lc (k # ks) (ps, kd) =
     (if includesStr lc k then scanKeywords lc ks (ps @ [k], kd(k \<mapsto> countMatches lc k))
      else scanKeywords lc ks (ps, kd))"

definition analyzeRuleContent :: "string \<Rightarrow> ContentAnalysis" where
  "analyzeRuleContent content =
     (let lowerContent = toLowerCase content;
          (sk, kd1) = scanKeywords lowerContent SKILL_KEYWORDS ([], Map.empty);
          (sa, kd2) = scanKeywords lowerContent SUBAGENT_KEYWORDS ([], kd1);
          (cm, kd3) = scanKeywords lowerContent COMMAND_KEYWORDS ([], kd2);
          (ru, kd4) = scanKeywords lowerContent RULE_KEYWORDS ([], kd3);
          sf = map fst (filter (\<lambda>(name, pattern). pattern content) STRUCTURAL_PATTERNS);
          cm' = (if atSomePosition slashToken content then cm @ [''slash command syntax''] else cm)
      in \<lparr>skillPatterns = sk, subagentPatterns = sa, commandPatterns = cm', rulePatterns = ru,
          structuralFeatures = sf, keywordDensity = kd4\<rparr>)"

definition scopeList :: "scope_value \<Rightarrow> string list" where
  "scopeList sc = (case sc of ScopeArray xs \<Rightarrow> xs | ScopeString s \<Rightarrow> [s])"

text \<open>Truthiness of \<open>metadata.scope\<close>: an array is truthy, also the empty one.\<close>

fun truthyScope :: "scope_value option \<Rightarrow> bool" where
  "truthyScope None = False"
| "truthyScope (Some (ScopeString s)) = (s \<noteq> [])"
| "truthyScope (Some (ScopeArray xs)) = True"

definition analyzeMetadata :: "metadata \<Rightarrow> MetadataAnalysis" where
  "analyzeMetadata m =
     (if truthy (type_m m)
      then \<lparr>explicitType = type_m m,
            typeHints = [''metadata.type: '' @ the (type_m m)],
            confidence = 1,
            conflictingSignals = []\<rparr>
      else
        let h0 = ([], 0 :: real);
            h1 = (case triggers m of
                    Some ts \<Rightarrow> if list_ex (\<lambda>t. startsWith t ''/'') ts
                               then (fst h0 @ [''slash trigger in metadata''], max (snd h0) (dbl 0.8))
                               else h0
                  | None \<Rightarrow> h0);
            h2 = (if manual m = Some True
                  then (fst h1 @ [''manual invocation flag''], max (snd h1) (dbl 0.6)) else h1);
            h3 = (if alwaysApply m = Some True
                  then (fst h2 @ [''always apply flag suggests rule''], max (snd h2) (dbl 0.7)) else h2);
            h4 = (case expertise m of
                    Some es \<Rightarrow> if length es > 0
                               then (fst h3 @ [''expertise field suggests skill''], max (snd h3) (dbl 0.8))
                               else h3
                  | None \<Rightarrow> h3);
            h5 = (if truthyScope (scope m)
                  then if list_ex (\<lambda>s. includesStr s ''command'' \<or> includesStr s ''cli'')
                            (scopeList (the (scope m)))
                       then (fst h4 @ [''command-related scope''], max (snd h4) (dbl 0.6))
                       else h4
                  else h4);
            cs = (if alwaysApply m = Some True \<and> manual m = Some True
                  then [''conflicting alwaysApply and manual flags''] else [])
        in \<lparr>explicitType = None, typeHints = fst h5, confidence = snd h5,
            conflictingSignals = cs\<rparr>)"

definition calculateContentScore :: "string list \<Rightarrow> (string \<rightharpoonup> nat) \<Rightarrow> real" where
  "calculateContentScore patterns kd =
     (if length patterns = 0 then 0
      else
        let score = min (dmul (real (length patterns)) (dbl 0.15)) (dbl 0.7);
            totalDensity = foldl (\<lambda>sum pattern. dadd sum
                (case kd pattern of None \<Rightarrow> 1 | Some d \<Rightarrow> if d = 0 then 1 else real d)) 0 patterns;
            densityBoost = min (dmul totalDensity (dbl 0.05)) (dbl 0.3)
        in min (dadd score densityBoost) 1)"

text \<open>
  \<open>calculateTypeScores\<close> in its two stages: the raw scores (content score, structural
  boosts, metadata boosts), then the normalisation by the maximum and the floor of the
  rule score.
\<close>

definition rawTypeScores :: "ContentAnalysis \<Rightarrow> MetadataAnalysis \<Rightarrow> scores" where
  "rawTypeScores ca ma =
     (let kd = keywordDensity ca; sf = structuralFeatures ca;
          s0 = \<lparr>skill = calculateContentScore (skillPatterns ca) kd,
                subagent = calculateContentScore (subagentPatterns ca) kd,
                command = calculateContentScore (commandPatterns ca) kd,
                rule = calculateContentScore (rulePatterns ca) kd\<rparr>;
          s1 = (if ''slashCommand'' \<in> set sf then s0\<lparr>command := dadd (command s0) (dbl 0.4)\<rparr> else s0);
          s2 = (if ''stepPattern'' \<in> set sf \<or> ''procedurePattern'' \<in> set sf
                then s1\<lparr>subagent := dadd (subagent s1) (dbl 0.3)\<rparr> else s1);
          s3 = (if ''examplePattern'' \<in> set sf \<or> ''notePattern'' \<in> set sf
                then s2\<lparr>skill := dadd (skill s2) (dbl 0.2)\<rparr> else s2);
          s4 = (if ''numberedList'' \<in> set sf then s3\<lparr>subagent := dadd (subagent s3) (dbl 0.2)\<rparr> else s3);
          metadataBoost = dmul (confidence ma) (dbl 0.3);
          hints = typeHints ma;
          s5 = (if list_ex (\<lambda>hint. includesStr hint ''expertise'') hints
                then s4\<lparr>skill := dadd (skill s4) metadataBoost\<rparr> else s4);
          s6 = (if list_ex (\<lambda>hint. includesStr hint ''trigger'') hints
                then s5\<lparr>command := dadd (command s5) metadataBoost\<rparr> else s5);
          s7 = (if list_ex (\<lambda>hint. includesStr hint ''manual'') hints
                then s6\<lparr>command := dadd (command s6) (dmul metadataBoost (dbl 0.5))\<rparr> else s6);
          s8 = (if list_ex (\<lambda>hint. includesStr hint ''always apply'') hints
                then s7\<lparr>rule := dadd (rule s7) metadataBoost\<rparr> else s7)
      in s8)"

definition maxOfScores :: "scores \<Rightarrow> real" where
  "maxOfScores s = max (max (max (skill s) (subagent s)) (command s)) (rule s)"

definition normalizeScores :: "scores \<Rightarrow> scores" where
  "normalizeScores s =
     (let maxRawScore = maxOfScores s;
          n = (if maxRawScore > 0
               then \<lparr>skill = min (ddiv (skill s) maxRawScore) 1,
                     subagent = min (ddiv (subagent s) maxRawScore) 1,
                     command = min (ddiv (command s) maxRawScore) 1,
                     rule = min (ddiv (rule s) maxRawScore) 1\<rparr>
               else s)
      in n\<lparr>rule := max (rule n) (dbl 0.3)\<rparr>)"

definition calculateTypeScores :: "ContentAnalysis \<Rightarrow> MetadataAnalysis \<Rightarrow> scores" where
  "calculateTypeScores ca ma = normalizeScores (rawTypeScores ca ma)"

text \<open>\<open>Object.keys(scores).find(type => scores[type] === maxScore)\<close>, keys in insertion order.\<close>

definition findMaxType :: "scores \<Rightarrow> real \<Rightarrow> string" where
  "findMaxType s maxScore =
     (if skill s = maxScore then ''skill''
      else if subagent s = maxScore then ''subagent''
      else if command s = maxScore then ''command''
      else ''rule'')"

definition gatherIndicators :: "string \<Rightarrow> ContentAnalysis \<Rightarrow> MetadataAnalysis \<Rightarrow> string list" where
  "gatherIndicators detectedType ca ma =
     (let i1 = (if detectedType = ''skill''
                then map (\<lambda>p. ''skill pattern: '' @ p) (take 3 (skillPatterns ca))
                else if detectedType = ''subagent''
                then map (\<lambda>p. ''subagent pattern: '' @ p) (take 3 (subagentPatterns ca))
                else if detectedType = ''command''
                then map (\<lambda>p. ''command pattern: '' @ p) (take 3 (commandPatterns ca))
                else if detectedType = ''rule''
                then map (\<lambda>p. ''rule pattern: '' @ p) (take 3 (rulePatterns ca))
                else []);
          relevantStructural = filter (\<lambda>feature.
                if detectedType = ''command'' then feature = ''slashCommand''
                else if detectedType = ''subagent''
                then feature \<in> set [''stepPattern'', ''procedurePattern'', ''numberedList'']
                else if detectedType = ''skill''
                then feature \<in> set [''examplePattern'', ''notePattern'']
                else False) (structuralFeatures ca);
          i2 = i1 @ map (\<lambda>f. ''structural: '' @ f) relevantStructural;
          i3 = i2 @ take 2 (typeHints ma)
      in take 5 i3)"

definition detectAbstractionType :: "metadata \<Rightarrow> string \<Rightarrow> AbstractionTypeInfo" where
  "detectAbstractionType m content =
     (let metadataAnalysis = analyzeMetadata m
      in if truthy (explicitType metadataAnalysis) \<and> confidence metadataAnalysis > dbl 0.9
         then \<lparr>ati_type = the (explicitType metadataAnalysis),
               ati_confidence = confidence metadataAnalysis,
               indicators = (''explicit type: '' @ the (explicitType metadataAnalysis)) #
                            typeHints metadataAnalysis\<rparr>
         else
           let contentAnalysis = analyzeRuleContent content;
               sc = calculateTypeScores contentAnalysis metadataAnalysis;
               maxScore = maxOfScores sc;
               detectedType = findMaxType sc maxScore;
               inds = gatherIndicators detectedType contentAnalysis metadataAnalysis;
               finalConfidence = (if detectedType = ''rule'' then max maxScore (dbl 0.5) else maxScore)
           in \<lparr>ati_type = detectedType, ati_confidence = finalConfidence, indicators = inds\<rparr>)"

section \<open>Validation results\<close>

text \<open>
  \<open>ValidationError\<close> and \<open>ValidationWarning\<close> are the same interface; a
  \<open>ValidationSuggestion\<close> has \<open>actionable\<close> in the place of \<open>severity\<close>.
\<close>

record entry =
  code :: string
  message :: string
  field :: "string option"

record ValidationError = entry +
  severity :: string

record ValidationSuggestion = entry +
  actionable :: bool

record ValidationResult =
  valid :: bool
  errors :: "ValidationError list"
  warnings :: "ValidationError list"
  suggestions :: "ValidationSuggestion list"

text \<open>
  An exception of the JavaScript run time.  The only one the validators can raise on
  well-typed input is the \<open>ReferenceError\<close> of reading an identifier that no scope
  declares.
\<close>

datatype js_error = ReferenceError string

text \<open>A value that may be \<open>undefined\<close> or \<open>null\<close>.\<close>

datatype 'a nullable = Undefined | Null | Defined 'a

definition mkError :: "string \<Rightarrow> string \<Rightarrow> string option \<Rightarrow> ValidationError" where
  "mkError c msg f = \<lparr>code = c, message = msg, field = f, severity = ''error''\<rparr>"

definition mkWarning :: "string \<Rightarrow> string \<Rightarrow> string option \<Rightarrow> ValidationError" where
  "mkWarning c msg f = \<lparr>code = c, message = msg, field = f, severity = ''warning''\<rparr>"

definition mkSuggestion :: "string \<Rightarrow> string \<Rightarrow> string option \<Rightarrow> bool \<Rightarrow> ValidationSuggestion" where
  "mkSuggestion c msg f a = \<lparr>code = c, message = msg, field = f, actionable = a\<rparr>"

text \<open>\<open>Array.prototype.join\<close>, \<open>String.prototype.trim\<close> and the decimal numeral of an index.\<close>

fun join :: "string \<Rightarrow> string list \<Rightarrow> string" where
  "join sep [] = []"
| "join sep [x] = x"
| "join sep (x # y # ys) = x @ sep @ join sep (y # ys)"

definition trim :: "string \<Rightarrow> string" where
  "trim s = rev (dropWhile isSpace (rev (dropWhile isSpace s)))"

function showNat :: "nat \<Rightarrow> string" where
  "showNat n =
     (if n < 10 then [char_of (48 + n)] else showNat (n div 10) @ [char_of (48 + n mod 10)])"
  by pat_completeness auto
termination
  by (relation "measure (\<lambda>n. n)") auto

definition VALID_MODELS :: "string list" where
  "VALID_MODELS = [''claude-3-5-sonnet'', ''claude-3-haiku'', ''gpt-4'', ''gpt-3.5-turbo'']"

definition VALID_PORTABILITY :: "string list" where
  "VALID_PORTABILITY = [''cross-tool'', ''claude-only'']"

definition KNOWN_TOOLS :: "string list" where
  "KNOWN_TOOLS =
     [''bash'', ''python'', ''node'', ''git'', ''docker'', ''typescript'', ''jest'', ''webpack'',
      ''eslint'']"

section \<open>The four category validators\<close>

text \<open>\<open>patterns.some(pattern => lowerContent.includes(pattern))\<close>\<close>

definition someIncluded :: "string \<Rightarrow> string list \<Rightarrow> bool" where
  "someIncluded lc patterns = list_ex (\<lambda>pattern. includesStr lc pattern) patterns"

text \<open>\<open>new RegExp('/[a-z]')\<close> as a prefix.\<close>

definition slashLower :: "string \<Rightarrow> bool" where
  "slashLower s =
     (case s of c # c' # _ \<Rightarrow> c = CHR ''/'' \<and> 97 \<le> (of_char c' :: nat) \<and> (of_char c' :: nat) \<le> 122
      | _ \<Rightarrow> False)"

definition validateSkill :: "metadata \<Rightarrow> string \<Rightarrow> js_error + ValidationResult" where
  "validateSkill m content =
     (let e1 = (case expertise m of
                  None \<Rightarrow> [mkError ''SKILL_MISSING_EXPERTISE''
                             ''Skills must have an expertise field'' (Some ''expertise'')]
                | Some es \<Rightarrow>
                    if length es = 0
                    then [mkError ''SKILL_EMPTY_EXPERTISE''
                            ''Skills must have at least one area of expertise'' (Some ''expertise'')]
                    else []);
          e2 = (if truthy (portability m) \<and> the (portability m) \<notin> set VALID_PORTABILITY
                then e1 @ [mkError ''SKILL_INVALID_PORTABILITY''
                        (''Invalid portability value. Must be one of: '' @ join '', '' VALID_PORTABILITY)
                        (Some ''portability'')]
                else e1);
          lowerContent = toLowerCase content;
          hasKnowledgePattern = someIncluded lowerContent
             [''how to'', ''best practice'', ''pattern:'', ''example:'', ''technique'',
              ''approach'', ''method'', ''strategy'', ''remember'', ''consider'',
              ''tip:'', ''guideline'', ''recommendation''];
          w1 = (if hasKnowledgePattern then []
                else [mkWarning ''SKILL_MISSING_KNOWLEDGE''
                        ''Skills should contain knowledge or guidance patterns (e.g., \"how to\", \"best practice\", \"example\")''
                        None]);
          hasIsolationPattern = someIncluded lowerContent
             [''delegate to'', ''hand off'', ''separate context'', ''independent'',
              ''isolated'', ''spawn'', ''subprocess''];
          e3 = (if hasIsolationPattern
                then e2 @ [mkError ''SKILL_ISOLATION_PATTERN''
                        ''Skills should not use isolation or delegation patterns. Consider using a SubAgent instead.''
                        None]
                else e2);
          hasTriggerPattern =
             (includesStr lowerContent ''when user types'' \<or> atSomePosition slashLower lowerContent \<or>
              includesStr lowerContent ''trigger:'' \<or> includesStr lowerContent ''command:'');
          e4 = (if hasTriggerPattern
                then e3 @ [mkError ''SKILL_TRIGGER_PATTERN''
                        ''Skills should not define triggers or commands. Consider using a Command instead.''
                        None]
                else e3);
          s1 = (case expertise m of
                  Some es \<Rightarrow>
                    if length es = 1
                    then [mkSuggestion ''SKILL_CATEGORIZE_EXPERTISE''
                            ''Consider categorizing expertise into more specific areas for better discoverability''
                            (Some ''expertise'') True]
                    else []
                | None \<Rightarrow> []);
          s2 = (if (case examples m of None \<Rightarrow> True | Some xs \<Rightarrow> length xs = 0)
                then s1 @ [mkSuggestion ''SKILL_ADD_EXAMPLES''
                        ''Consider adding usage examples to help users understand when to apply this skill''
                        (Some ''examples'') True]
                else s1);
          s3 = (if truthy (portability m) then s2
                else s2 @ [mkSuggestion ''SKILL_SPECIFY_PORTABILITY''
                        ''Consider specifying portability to clarify tool compatibility''
                        (Some ''portability'') True])
      in Inr \<lparr>valid = (length e4 = 0), errors = e4, warnings = w1, suggestions = s3\<rparr>)"

text \<open>
  \<open>validateSubAgent\<close>.  \<open>subAgentFindings\<close> is the body up to its last statement: the
  three arrays \<open>errors\<close>, \<open>warnings\<close> and \<open>suggestions\<close> as they stand there.  The last
  statement before the \<open>return\<close> is
  \<open>if (metadata.tools && metadata.tools.length > 5) {...} else if (skill.description.length > ...)\<close>:
  no scope declares \<open>skill\<close>, so whenever the first condition is false the second one
  raises a \<open>ReferenceError\<close> and the function does not return.
\<close>

definition subAgentFindings ::
  "metadata \<Rightarrow> string \<Rightarrow> ValidationError list \<times> ValidationError list \<times> ValidationSuggestion list" where
  "subAgentFindings m content =
     (let e1 = (case isolatedContext m of
                  None \<Rightarrow> [mkError ''SUBAGENT_MISSING_ISOLATION''
                             ''SubAgents must have isolatedContext field'' (Some ''isolatedContext'')]
                | Some b \<Rightarrow>
                    if b then []
                    else [mkError ''SUBAGENT_FALSE_ISOLATION''
                            ''SubAgents must have isolatedContext set to true''
                            (Some ''isolatedContext'')]);
          e2 = (if truthy (model m) \<and> the (model m) \<notin> set VALID_MODELS
                then e1 @ [mkError ''SUBAGENT_INVALID_MODEL''
                        (''Invalid model. Must be one of: '' @ join '', '' VALID_MODELS)
                        (Some ''model'')]
                else e1);
          w1 = (case tools m of
                  Some ts \<Rightarrow>
                    (let invalidTools = filter (\<lambda>tool. tool \<notin> set KNOWN_TOOLS) ts
                     in if length invalidTools > 0
                        then [mkWarning ''SUBAGENT_INVALID_TOOLS''
                                (''Unknown tools: '' @ join '', '' invalidTools @
                                 ''. Verify these are valid tool names.'')
                                (Some ''tools'')]
                        else [])
                | None \<Rightarrow> []);
          lowerContent = toLowerCase content;
          hasProceduralPattern = someIncluded lowerContent
             [''step 1:'', ''step 2:'', ''first'', ''then'', ''next'', ''finally'',
              ''procedure'', ''workflow'', ''process'', ''pipeline'', ''delegate'',
              ''hand off'', ''sub-task'', ''subtask''];
          w2 = (if hasProceduralPattern then w1
                else w1 @ [mkWarning ''SUBAGENT_MISSING_PROCEDURAL''
                        ''SubAgents should contain procedural or task-oriented patterns'' None]);
          e3 = (if alwaysApply m = Some True
                then e2 @ [mkError ''SUBAGENT_RULE_CONFLICT''
                        ''SubAgents should not use alwaysApply flag. This conflicts with isolated context.''
                        (Some ''alwaysApply'')]
                else e2);
          s1 = (if truthy (model m)
                then if model m = Some ''claude-3-haiku''
                     then [mkSuggestion ''SUBAGENT_HAIKU_USAGE''
                             ''Consider using Haiku for simple, fast tasks and Sonnet for complex reasoning''
                             (Some ''model'') False]
                     else []
                else [mkSuggestion ''SUBAGENT_SPECIFY_MODEL''
                        ''Consider specifying a model for better performance optimization''
                        (Some ''model'') True]);
          s2 = (if truthy (systemPrompt m) then s1
                else s1 @ [mkSuggestion ''SUBAGENT_ADD_SYSTEM_PROMPT''
                        ''Consider adding a system prompt to better define the subagent's role''
                        (Some ''systemPrompt'') True])
      in (e3, w2, s2))"

definition validateSubAgent :: "metadata \<Rightarrow> string \<Rightarrow> js_error + ValidationResult" where
  "validateSubAgent m content =
     (case subAgentFindings m content of
        (e3, w2, s2) \<Rightarrow>
          if (case tools m of Some ts \<Rightarrow> length ts > 5 | None \<Rightarrow> False)
          then (let s3 = s2 @ [mkSuggestion ''SUBAGENT_TOO_MANY_TOOLS''
                          ''Consider reducing tool scope for better focus and performance''
                          (Some ''tools'') True]
                in Inr \<lparr>valid = (length e3 = 0), errors = e3, warnings = w2, suggestions = s3\<rparr>)
          else Inl (ReferenceError ''skill is not defined''))"

text \<open>\<open>/^\/[a-zA-Z][a-zA-Z0-9_-]*$/\<close>\<close>

definition isTriggerChar :: "char \<Rightarrow> bool" where
  "isTriggerChar c = (isLetter c \<or> isDigit c \<or> c = CHR ''_'' \<or> c = CHR ''-'')"

definition triggerRegex :: "string \<Rightarrow> bool" where
  "triggerRegex t =
     (case t of c # c' # rest \<Rightarrow> c = CHR ''/'' \<and> isLetter c' \<and> list_all isTriggerChar rest
      | _ \<Rightarrow> False)"

text \<open>The three checks of one declared argument, \<open>index\<close> its position.\<close>

definition argumentErrors :: "nat \<Rightarrow> argument \<Rightarrow> ValidationError list" where
  "argumentErrors index arg =
     (if arg_name arg = []
      then [mkError ''COMMAND_INVALID_ARGUMENTS''
              (''Argument at index '' @ showNat index @ '' must have a name'')
              (Some (''arguments.'' @ showNat index @ ''.name''))]
      else []) @
     (if arg_type arg \<in> set [''string'', ''number'', ''boolean'', ''file''] then []
      else [mkError ''COMMAND_INVALID_ARGUMENTS''
              (''Invalid argument type \"'' @ arg_type arg @ ''\". Must be one of: '' @
               join '', '' [''string'', ''number'', ''boolean'', ''file''])
              (Some (''arguments.'' @ showNat index @ ''.type''))]) @
     (case arg_required arg of
        None \<Rightarrow> [mkError ''COMMAND_INVALID_ARGUMENTS''
                   ''Argument required field must be boolean''
                   (Some (''arguments.'' @ showNat index @ ''.required''))]
      | Some b \<Rightarrow> [])"

text \<open>
  \<open>validateCommand\<close>.  The first statement is
  \<open>if (!metadata.trigger) {...} else if (!metadata.trigger.startsWith('/')) {...}
  else if (subagent.name.length > ...)\<close>: no scope declares \<open>subagent\<close>, so a trigger
  that starts with a slash raises a \<open>ReferenceError\<close>.
\<close>

definition validateCommand :: "metadata \<Rightarrow> string \<Rightarrow> js_error + ValidationResult" where
  "validateCommand m content =
     (if truthy (trigger m) \<and> startsWith (the (trigger m)) ''/''
      then Inl (ReferenceError ''subagent is not defined'')
      else
        let e1 = (if truthy (trigger m)
                  then [mkError ''COMMAND_INVALID_TRIGGER''
                          ''Command triggers must start with \"/\"'' (Some ''trigger'')]
                  else [mkError ''COMMAND_MISSING_TRIGGER''
                          ''Commands must have a trigger field'' (Some ''trigger'')]);
            e2 = (case userInvoked m of
                    None \<Rightarrow> e1 @ [mkError ''COMMAND_MISSING_USER_INVOKED''
                                    ''Commands must have userInvoked field'' (Some ''userInvoked'')]
                  | Some b \<Rightarrow>
                      if b then e1
                      else e1 @ [mkError ''COMMAND_FALSE_USER_INVOKED''
                                   ''Commands must have userInvoked set to true''
                                   (Some ''userInvoked'')]);
            e3 = (if truthy (trigger m)
                  then if triggerRegex (the (trigger m)) then e2
                       else e2 @ [mkError ''COMMAND_INVALID_TRIGGER''
                               ''Command trigger must be a valid slash command (e.g., /build, /test)''
                               (Some ''trigger'')]
                  else e2);
            e4 = (case arguments m of
                    Some as \<Rightarrow>
                      e3 @ concat (map (\<lambda>(index, arg). argumentErrors index arg)
                                    (zip [0 ..< length as] as))
                  | None \<Rightarrow> e3);
            lowerContent = toLowerCase content;
            hasInstructionPattern = someIncluded lowerContent
               [''run'', ''execute'', ''trigger'', ''invoke'', ''call'',
                ''usage:'', ''syntax:'', ''when user types'', ''command''];
            w1 = (if hasInstructionPattern then []
                  else [mkWarning ''COMMAND_MISSING_INSTRUCTIONS''
                          ''Commands should contain executable instructions or usage guidance''
                          None]);
            hasAlwaysPattern = someIncluded lowerContent
               [''always apply'', ''every time'', ''consistently'', ''baseline'', ''global''];
            e5 = (if hasAlwaysPattern \<or> alwaysApply m = Some True
                  then e4 @ [mkError ''COMMAND_ALWAYS_APPLY_PATTERN''
                          ''Commands should not use always-apply patterns. They are user-invoked only.''
                          None]
                  else e4);
            s1 = (if (case arguments m of None \<Rightarrow> True | Some as \<Rightarrow> length as = 0)
                  then [mkSuggestion ''COMMAND_ADD_ARGUMENTS''
                          ''Consider defining arguments structure for better usability''
                          (Some ''arguments'') True]
                  else []);
            s2 = (if includesStr content ''usage:'' \<or> includesStr content ''example:'' then s1
                  else s1 @ [mkSuggestion ''COMMAND_ADD_USAGE_EXAMPLE''
                          ''Consider adding usage examples to help users understand how to invoke the command''
                          None True]);
            s3 = (if (case arguments m of
                        None \<Rightarrow> False
                      | Some as \<Rightarrow> list_ex (\<lambda>arg. arg_required arg = Some False) as) \<and>
                     \<not> includesStr content ''optional''
                  then s2 @ [mkSuggestion ''COMMAND_DOCUMENT_OPTIONAL_ARGS''
                          ''Consider documenting optional arguments in the command description''
                          None True]
                  else s2)
        in Inr \<lparr>valid = (length e5 = 0), errors = e5, warnings = w1, suggestions = s3\<rparr>)"

definition validateRule :: "metadata \<Rightarrow> string \<Rightarrow> js_error + ValidationResult" where
  "validateRule m content =
     (let e1 = (if truthyScope (scope m)
                then (let scopes = scopeList (the (scope m));
                          invalidScopes = filter (\<lambda>s. trim s = []) scopes
                      in if length invalidScopes > 0
                         then [mkError ''RULE_INVALID_SCOPE''
                                 ''Rule scopes must be non-empty strings'' (Some ''scope'')]
                         else [])
                else []);
          e2 = (if content = [] \<or> trim content = []
                then e1 @ [mkError ''RULE_MISSING_CONTENT'' ''Rules must have content'' None]
                else e1);
          lowerContent = toLowerCase content;
          hasRulePattern = someIncluded lowerContent
             [''always'', ''never'', ''should'', ''must'', ''avoid'', ''ensure'',
              ''you are'', ''your role is'', ''behave as'', ''act as'',
              ''consistently'', ''require'', ''policy'', ''guideline''];
          s1 = (if hasRulePattern then []
                else [mkSuggestion ''RULE_ADD_GUIDELINES''
                        ''Consider adding clear guidelines or constraints for better rule effectiveness''
                        None True]);
          s2 = (if truthy (priority m) then s1
                else s1 @ [mkSuggestion ''RULE_ADD_PRIORITY''
                        ''Consider adding priority level for better rule ordering''
                        (Some ''priority'') True]);
          s3 = (if truthy (description m) then s2
                else s2 @ [mkSuggestion ''RULE_ADD_DESCRIPTION''
                        ''Consider adding description for better documentation''
                        (Some ''description'') True]);
          s4 = (if alwaysApply m = None
                then s3 @ [mkSuggestion ''RULE_SPECIFY_ALWAYS_APPLY''
                        ''Consider explicitly setting alwaysApply to clarify rule application''
                        (Some ''alwaysApply'') True]
                else s3)
      in Inr \<lparr>valid = (length e2 = 0), errors = e2, warnings = [], suggestions = s4\<rparr>)"

section \<open>The dispatcher\<close>

definition routeToSpecificValidator ::
  "string \<Rightarrow> metadata \<Rightarrow> string \<Rightarrow> js_error + ValidationResult" where
  "routeToSpecificValidator t m content =
     (if t = ''skill'' then validateSkill m content
      else if t = ''subagent'' then validateSubAgent m content
      else if t = ''command'' then validateCommand m content
      else if t = ''rule'' then validateRule m content
      else Inr \<lparr>valid = False,
                errors = [mkError ''UNKNOWN_TYPE'' (''Unknown abstraction type: '' @ t) (Some ''type'')],
                warnings = [], suggestions = []\<rparr>)"

text \<open>
  \<open>validateAnyAbstraction\<close>.  There is no \<open>try\<close> around the call of the category
  validator: what it raises, the dispatcher raises.  The copy of the metadata without
  \<open>type\<close> is the record with \<open>type_m\<close> reset.
\<close>

definition validateAnyAbstraction ::
  "metadata nullable \<Rightarrow> string nullable \<Rightarrow> js_error + ValidationResult" where
  "validateAnyAbstraction metadata content =
     (case metadata of
        Defined m \<Rightarrow>
          (case content of
             Defined c \<Rightarrow>
               (let detectedType = (if truthy (type_m m) then the (type_m m)
                                    else ati_type (detectAbstractionType m c))
                in case routeToSpecificValidator detectedType m c of
                     Inl e \<Rightarrow> Inl e
                   | Inr result \<Rightarrow>
                       if truthy (type_m m)
                       then (let typeInfo = detectAbstractionType (m\<lparr>type_m := None\<rparr>) c
                             in if ati_type typeInfo \<noteq> the (type_m m) \<and> ati_confidence typeInfo > dbl 0.7
                                then Inr (result\<lparr>warnings := warnings result @
                                       [mkWarning ''ABSTRACTION_TYPE_MISMATCH''
                                          (''Content suggests \"'' @ ati_type typeInfo @
                                           ''\" but metadata specifies \"'' @ the (type_m m) @
                                           ''\". Consider reviewing the type or content.'')
                                          (Some ''type'')]\<rparr>)
                                else Inr result)
                       else Inr result)
           | _ \<Rightarrow> Inr \<lparr>valid = False,
                       errors = [mkError ''MISSING_REQUIRED_FIELD''
                                   ''Content is required for validation'' None],
                       warnings = [], suggestions = []\<rparr>)
      | _ \<Rightarrow> Inr \<lparr>valid = False,
                  errors = [mkError ''MISSING_REQUIRED_FIELD''
                              ''Metadata is required for validation'' None],
                  warnings = [], suggestions = []\<rparr>)"

text \<open>\<open>combineValidationResults\<close>: one \<open>forEach\<close> step, and the loop from the empty result.\<close>

definition combineStep :: "ValidationResult \<Rightarrow> ValidationResult \<Rightarrow> ValidationResult" where
  "combineStep combined result =
     \<lparr>valid = (if valid result then valid combined else False),
      errors = errors combined @ errors result,
      warnings = warnings combined @ warnings result,
      suggestions = suggestions combined @ suggestions result\<rparr>"

definition combineValidationResults :: "ValidationResult list \<Rightarrow> ValidationResult" where
  "combineValidationResults results =
     foldl combineStep \<lparr>valid = True, errors = [], warnings = [], suggestions = []\<rparr> results"

section \<open>The group validator\<close>

text \<open>
  A JavaScript \<open>Map\<close> iterates in insertion order, and \<open>set\<close> on a key that is
  present keeps the key's place: an association list, updated in place or extended at
  the end.
\<close>

type_synonym graph = "(string \<times> string list) list"

fun mapSet :: "'k \<Rightarrow> 'v \<Rightarrow> ('k \<times> 'v) list \<Rightarrow> ('k \<times> 'v) list" where
  "mapSet k v [] = [(k, v)]"
| "mapSet k v ((k', v') # ps) = (if k = k' then (k, v) # ps else (k', v') # mapSet k v ps)"

text \<open>\<open>dependencyGraph.get(nodeId) || []\<close>\<close>

definition dependenciesOf :: "graph \<Rightarrow> string \<Rightarrow> string list" where
  "dependenciesOf g nodeId = (case map_of g nodeId of Some ds \<Rightarrow> ds | None \<Rightarrow> [])"

text \<open>Every identifier in the graph, as a key or as a dependency: the bound of the traversal.\<close>

definition graphNodes :: "graph \<Rightarrow> string set" where
  "graphNodes g = fst ` set g \<union> (\<Union>e \<in> set g. set (snd e))"

text \<open>
  The closure \<open>hasCircularDependency\<close> with the two sets it mutates, \<open>visited\<close> and
  \<open>recursionStack\<close>, passed in and returned; \<open>hasCircularAmong\<close> is its
  \<open>for (const depId of dependencies)\<close> loop, which returns at the first cycle.
\<close>

function hasCircularDependency :: "graph \<Rightarrow> string \<Rightarrow> string set \<times> string set \<Rightarrow> bool \<times> string set \<times> string set"
  and hasCircularAmong :: "graph \<Rightarrow> string list \<Rightarrow> string set \<times> string set \<Rightarrow> bool \<times> string set \<times> string set"
where
  "hasCircularDependency g nodeId (visited, recursionStack) =
     (if nodeId \<in> recursionStack then (True, visited, recursionStack)
      else if nodeId \<in> visited then (False, visited, recursionStack)
      else (case hasCircularAmong g (dependenciesOf g nodeId)
                   (insert nodeId visited, insert nodeId recursionStack) of
              (True, s) \<Rightarrow> (True, s)
            | (False, v, r) \<Rightarrow> (False, v, r - {nodeId})))"
| "hasCircularAmong g [] s = (False, s)"
| "hasCircularAmong g (depId # rest) s =
     (case hasCircularDependency g depId s of
        (True, s') \<Rightarrow> (True, s')
      | (False, s') \<Rightarrow> hasCircularAmong g rest s')"
  by pat_completeness auto


lemma visited_grows:
  "hasCircularDependency_hasCircularAmong_dom (Inl (g, n, s)) \<Longrightarrow>
     fst s \<subseteq> fst (snd (hasCircularDependency g n s))"
  "hasCircularDependency_hasCircularAmong_dom (Inr (g, ds, s)) \<Longrightarrow>
     fst s \<subseteq> fst (snd (hasCircularAmong g ds s))"
proof (induct g n s and g ds s rule: hasCircularDependency_hasCircularAmong.pinduct)
  case (1 g nodeId visited recursionStack)
  then show ?case
    by (auto simp: hasCircularDependency.psimps split: prod.splits bool.splits)
next
  case (2 g s)
  then show ?case by (simp add: hasCircularAmong.psimps)
next
  case (3 g depId rest s)
  then show ?case
    apply (auto simp: hasCircularAmong.psimps split: prod.splits bool.splits)
    by (meson subsetD)
qed

lemma deps_in_nodes: "set (dependenciesOf g n) \<subseteq> graphNodes g"
proof (cases "map_of g n")
  case None
  then show ?thesis by (simp add: dependenciesOf_def)
next
  case (Some ds)
  then have "(n, ds) \<in> set g" by (rule map_of_SomeD)
  then have "set ds \<subseteq> (\<Union>e \<in> set g. set (snd e))" by force
  then show ?thesis using Some by (auto simp: dependenciesOf_def graphNodes_def)
qed

lemma finite_graphNodes: "finite (graphNodes g)"
  by (simp add: graphNodes_def)

termination hasCircularDependency
proof (relation "inv_image (less_than <*lex*> less_than)
    (\<lambda>x. case x of
       Inl (g, n, s) \<Rightarrow> (card ((graphNodes g \<union> {n}) - fst s), 0)
     | Inr (g, ds, s) \<Rightarrow> (card ((graphNodes g \<union> set ds) - fst s), Suc (length ds)))", goal_cases)
  case 1
  then show ?case by (intro wf_inv_image wf_lex_prod wf_less_than)
next
  case (2 g nodeId visited recursionStack)
  have "(graphNodes g \<union> set (dependenciesOf g nodeId)) - insert nodeId visited
        \<subset> (graphNodes g \<union> {nodeId}) - visited"
    using 2 deps_in_nodes[of g nodeId] by auto
  then have "card ((graphNodes g \<union> set (dependenciesOf g nodeId)) - insert nodeId visited)
        < card ((graphNodes g \<union> {nodeId}) - visited)"
    by (intro psubset_card_mono) (simp_all add: finite_graphNodes)
  then show ?case by simp
next
  case (3 g depId rest s)
  have "card ((graphNodes g \<union> {depId}) - fst s) \<le> card ((graphNodes g \<union> set (depId # rest)) - fst s)"
    by (intro card_mono) (auto simp: finite_graphNodes)
  then show ?case by auto
next
  case (4 g depId rest s x y)
  have "fst s \<subseteq> fst y"
    using visited_grows(1)[OF 4(3)] 4(1) by (metis snd_conv)
  then have "card ((graphNodes g \<union> set rest) - fst y) \<le> card ((graphNodes g \<union> set (depId # rest)) - fst s)"
    by (intro card_mono) (auto simp: finite_graphNodes)
  then show ?case by auto
qed


text \<open>The \<open>for ... of dependencyGraph\<close> loop with its \<open>break\<close>: the first key that reports a cycle.\<close>

fun findCycle :: "graph \<Rightarrow> string list \<Rightarrow> string set \<times> string set \<Rightarrow> string option" where
  "findCycle g [] s = None"
| "findCycle g (nodeId # rest) s =
     (case hasCircularDependency g nodeId s of
        (True, s') \<Rightarrow> Some nodeId
      | (False, s') \<Rightarrow> findCycle g rest s')"

text \<open>
  One step of the \<open>forEach\<close> that builds the two indexes: the errors so far, the
  \<open>commandTriggers\<close> map and the \<open>dependencyGraph\<close> map.
\<close>

definition indexStep ::
  "ValidationError list \<times> (string \<times> string) list \<times> graph \<Rightarrow> metadata \<times> string \<Rightarrow>
   ValidationError list \<times> (string \<times> string) list \<times> graph" where
  "indexStep st abstraction =
     (case st of (es, commandTriggers, dependencyGraph) \<Rightarrow>
        let m = fst abstraction;
            dg = (case dependencies m of
                    Some ds \<Rightarrow> mapSet (id_m m) ds dependencyGraph
                  | None \<Rightarrow> dependencyGraph)
        in if type_m m = Some ''command'' \<and> truthy (trigger m)
           then (let existingId = map_of commandTriggers (the (trigger m))
                 in if truthy existingId
                    then (es @ [mkError ''COMMAND_TRIGGER_CONFLICT''
                                  (''Trigger \"'' @ the (trigger m) @ ''\" conflicts with command \"'' @
                                   the existingId @ ''\"'')
                                  (Some ''trigger'')],
                          commandTriggers, dg)
                    else (es, mapSet (the (trigger m)) (id_m m) commandTriggers, dg))
           else (es, commandTriggers, dg))"

definition invalidDependencyErrors :: "string set \<Rightarrow> graph \<Rightarrow> ValidationError list" where
  "invalidDependencyErrors allIds dependencyGraph =
     concat (map (\<lambda>(nodeId, deps).
        let invalidDeps = filter (\<lambda>depId. depId \<notin> allIds) deps
        in if length invalidDeps > 0
           then [mkError ''INVALID_DEPENDENCY''
                   (''Invalid dependencies in \"'' @ nodeId @ ''\": '' @ join '', '' invalidDeps)
                   (Some ''dependencies'')]
           else []) dependencyGraph)"

definition ruleScopes :: "metadata \<Rightarrow> string list" where
  "ruleScopes m = (if truthyScope (scope m) then scopeList (the (scope m)) else [''global''])"

definition addScope :: "string \<Rightarrow> (string \<times> string list) list \<Rightarrow> string \<Rightarrow> (string \<times> string list) list" where
  "addScope ruleId overlappingScopes sc =
     (case map_of overlappingScopes sc of
        None \<Rightarrow> mapSet sc [ruleId] overlappingScopes
      | Some ruleIds \<Rightarrow> mapSet sc (ruleIds @ [ruleId]) overlappingScopes)"

definition scopeConflictWarnings :: "(metadata \<times> string) list \<Rightarrow> ValidationError list" where
  "scopeConflictWarnings abstractions =
     (let alwaysApplyRules =
            filter (\<lambda>a. alwaysApply (fst a) = Some True \<and> type_m (fst a) = Some ''rule'') abstractions
      in if length alwaysApplyRules > 1
         then (let overlappingScopes =
                     foldl (\<lambda>os r. foldl (addScope (id_m (fst r))) os (ruleScopes (fst r)))
                       [] alwaysApplyRules
               in concat (map (\<lambda>(sc, ruleIds).
                    if length ruleIds > 1
                    then [mkWarning ''RULE_SCOPE_CONFLICT''
                            (''Multiple always-apply rules in scope \"'' @ sc @ ''\": '' @
                             join '', '' ruleIds @ ''. Consider setting priorities.'')
                            (Some ''scope'')]
                    else []) overlappingScopes))
         else [])"

definition validateAbstractionGroup :: "(metadata \<times> string) list \<Rightarrow> ValidationResult" where
  "validateAbstractionGroup abstractions =
     (case foldl indexStep ([], [], []) abstractions of
        (e1, commandTriggers, dependencyGraph) \<Rightarrow>
          let e2 = (case findCycle dependencyGraph (map fst dependencyGraph) ({}, {}) of
                      Some nodeId \<Rightarrow>
                        e1 @ [mkError ''CIRCULAR_DEPENDENCY''
                                (''Circular dependency detected involving \"'' @ nodeId @ ''\"'')
                                (Some ''dependencies'')]
                    | None \<Rightarrow> e1);
              allIds = set (map (\<lambda>a. id_m (fst a)) abstractions);
              e3 = e2 @ invalidDependencyErrors allIds dependencyGraph;
              w = scopeConflictWarnings abstractions
          in \<lparr>valid = (length e3 = 0), errors = e3, warnings = w, suggestions = []\<rparr>)"

section \<open>The store\<close>

text \<open>
  Objects, arrays, maps and their references, for the claim that no operation changes
  what its caller passed.  The store is the list of the objects created so far, an
  address is a position in it, a new object goes to the end.  A string, a number and a
  boolean are values: nothing can write to them.  So are the arrays that \<open>filter\<close>,
  \<open>map\<close> and \<open>slice\<close> build and no statement writes to afterwards, the argument objects
  and the issue objects inside their arrays, and the two sets of strings of the cycle
  search.  Every object that some statement of the source writes to (\<open>push\<close>,
  \<open>Map.set\<close>) is in the store, and so are the metadata objects, their arrays, the
  documents and the batch, by reference.
\<close>

type_synonym addr = nat

text \<open>
  A metadata object: the properties of \<^typ>\<open>metadata\<close>, the array-valued ones as
  references.
\<close>

datatype scope_ref = ScopeText string | ScopeAt addr

record metadata_obj =
  o_id :: string
  o_type :: "string option"
  o_alwaysApply :: "bool option"
  o_scope :: "scope_ref option"
  o_triggers :: "addr option"
  o_manual :: "bool option"
  o_priority :: "string option"
  o_description :: "string option"
  o_expertise :: "addr option"
  o_dependencies :: "addr option"
  o_portability :: "string option"
  o_examples :: "addr option"
  o_model :: "string option"
  o_tools :: "addr option"
  o_isolatedContext :: "bool option"
  o_systemPrompt :: "string option"
  o_trigger :: "string option"
  o_userInvoked :: "bool option"
  o_arguments :: "addr option"

datatype obj =
    MetadataObj metadata_obj
  | StringArray "string list"
  | ArgumentArray "argument list"
  | RuleBlockObj addr string
  | BlockArray "addr list"
  | IssueArray "ValidationError list"
  | SuggestionArray "ValidationSuggestion list"
  | ResultObj bool addr addr addr
  | TypeInfoObj string real addr
  | ContentAnalysisObj addr addr addr addr addr "string \<rightharpoonup> nat"
  | MetadataAnalysisObj "string option" addr real addr
  | StringMap "(string \<times> string) list"
  | RefMap "(string \<times> addr) list"

type_synonym heap = "obj list"

definition alloc :: "heap \<Rightarrow> obj \<Rightarrow> heap \<times> addr" where
  "alloc h ob = (h @ [ob], length h)"

definition lookup :: "heap \<Rightarrow> addr \<Rightarrow> obj option" where
  "lookup h a = (if a < length h then Some (h ! a) else None)"

definition store :: "heap \<Rightarrow> addr \<Rightarrow> obj \<Rightarrow> heap" where
  "store h a ob = h[a := ob]"

text \<open>Every object of \<open>h0\<close> is in \<open>h\<close>, at its address and with its contents.\<close>

definition extends :: "heap \<Rightarrow> heap \<Rightarrow> bool" where
  "extends h0 h = (take (length h0) h = h0)"

text \<open>
  Reads.  A reference of the program always denotes an object of its type; at an address
  that does not, the reads give the empty array, map or object.
\<close>

definition loadStrings :: "heap \<Rightarrow> addr \<Rightarrow> string list" where
  "loadStrings h a = (case lookup h a of Some (StringArray xs) \<Rightarrow> xs | _ \<Rightarrow> [])"

definition loadArguments :: "heap \<Rightarrow> addr \<Rightarrow> argument list" where
  "loadArguments h a = (case lookup h a of Some (ArgumentArray xs) \<Rightarrow> xs | _ \<Rightarrow> [])"

definition loadIssues :: "heap \<Rightarrow> addr \<Rightarrow> ValidationError list" where
  "loadIssues h a = (case lookup h a of Some (IssueArray xs) \<Rightarrow> xs | _ \<Rightarrow> [])"

definition loadSuggestions :: "heap \<Rightarrow> addr \<Rightarrow> ValidationSuggestion list" where
  "loadSuggestions h a = (case lookup h a of Some (SuggestionArray xs) \<Rightarrow> xs | _ \<Rightarrow> [])"

definition loadStringMap :: "heap \<Rightarrow> addr \<Rightarrow> (string \<times> string) list" where
  "loadStringMap h a = (case lookup h a of Some (StringMap ps) \<Rightarrow> ps | _ \<Rightarrow> [])"

definition loadRefMap :: "heap \<Rightarrow> addr \<Rightarrow> (string \<times> addr) list" where
  "loadRefMap h a = (case lookup h a of Some (RefMap ps) \<Rightarrow> ps | _ \<Rightarrow> [])"

definition loadRuleBlock :: "heap \<Rightarrow> addr \<Rightarrow> addr \<times> string" where
  "loadRuleBlock h a = (case lookup h a of Some (RuleBlockObj ma content) \<Rightarrow> (ma, content) | _ \<Rightarrow> (a, []))"

definition loadBatch :: "heap \<Rightarrow> addr \<Rightarrow> (addr \<times> string) list" where
  "loadBatch h a = (case lookup h a of Some (BlockArray bs) \<Rightarrow> map (loadRuleBlock h) bs | _ \<Rightarrow> [])"

definition readScope :: "heap \<Rightarrow> scope_ref \<Rightarrow> scope_value" where
  "readScope h sr = (case sr of ScopeText s \<Rightarrow> ScopeString s | ScopeAt a \<Rightarrow> ScopeArray (loadStrings h a))"

definition readMetadata :: "heap \<Rightarrow> metadata_obj \<Rightarrow> metadata" where
  "readMetadata h mo =
     \<lparr>id_m = o_id mo, type_m = o_type mo, alwaysApply = o_alwaysApply mo,
      scope = map_option (readScope h) (o_scope mo),
      triggers = map_option (loadStrings h) (o_triggers mo),
      manual = o_manual mo, priority = o_priority mo, description = o_description mo,
      expertise = map_option (loadStrings h) (o_expertise mo),
      dependencies = map_option (loadStrings h) (o_dependencies mo),
      portability = o_portability mo,
      examples = map_option (loadStrings h) (o_examples mo),
      model = o_model mo,
      tools = map_option (loadStrings h) (o_tools mo),
      isolatedContext = o_isolatedContext mo, systemPrompt = o_systemPrompt mo,
      trigger = o_trigger mo, userInvoked = o_userInvoked mo,
      arguments = map_option (loadArguments h) (o_arguments mo)\<rparr>"

definition bareObj :: metadata_obj where
  "bareObj =
     \<lparr>o_id = [], o_type = None, o_alwaysApply = None, o_scope = None, o_triggers = None,
      o_manual = None, o_priority = None, o_description = None, o_expertise = None,
      o_dependencies = None, o_portability = None, o_examples = None, o_model = None,
      o_tools = None, o_isolatedContext = None, o_systemPrompt = None, o_trigger = None,
      o_userInvoked = None, o_arguments = None\<rparr>"

definition loadMetadataObj :: "heap \<Rightarrow> addr \<Rightarrow> metadata_obj" where
  "loadMetadataObj h a = (case lookup h a of Some (MetadataObj mo) \<Rightarrow> mo | _ \<Rightarrow> bareObj)"

definition loadMetadata :: "heap \<Rightarrow> addr \<Rightarrow> metadata" where
  "loadMetadata h a = readMetadata h (loadMetadataObj h a)"

text \<open>Writes: \<open>Array.prototype.push\<close> and \<open>Map.prototype.set\<close> on the object at an address.\<close>

definition pushString :: "heap \<Rightarrow> addr \<Rightarrow> string \<Rightarrow> heap" where
  "pushString h a s =
     (case lookup h a of Some (StringArray xs) \<Rightarrow> store h a (StringArray (xs @ [s])) | _ \<Rightarrow> h)"

definition pushIssue :: "heap \<Rightarrow> addr \<Rightarrow> ValidationError \<Rightarrow> heap" where
  "pushIssue h a e =
     (case lookup h a of Some (IssueArray xs) \<Rightarrow> store h a (IssueArray (xs @ [e])) | _ \<Rightarrow> h)"

definition pushSuggestion :: "heap \<Rightarrow> addr \<Rightarrow> ValidationSuggestion \<Rightarrow> heap" where
  "pushSuggestion h a e =
     (case lookup h a of
        Some (SuggestionArray xs) \<Rightarrow> store h a (SuggestionArray (xs @ [e]))
      | _ \<Rightarrow> h)"

definition setString :: "heap \<Rightarrow> addr \<Rightarrow> string \<Rightarrow> string \<Rightarrow> heap" where
  "setString h a k v =
     (case lookup h a of Some (StringMap ps) \<Rightarrow> store h a (StringMap (mapSet k v ps)) | _ \<Rightarrow> h)"

definition setRef :: "heap \<Rightarrow> addr \<Rightarrow> string \<Rightarrow> addr \<Rightarrow> heap" where
  "setRef h a k v =
     (case lookup h a of Some (RefMap ps) \<Rightarrow> store h a (RefMap (mapSet k v ps)) | _ \<Rightarrow> h)"

text \<open>A new array and the pushes that fill it.\<close>

definition newStrings :: "heap \<Rightarrow> string list \<Rightarrow> heap \<times> addr" where
  "newStrings h xs =
     (case alloc h (StringArray []) of (h1, a) \<Rightarrow> (foldl (\<lambda>h' s. pushString h' a s) h1 xs, a))"

definition newIssues :: "heap \<Rightarrow> ValidationError list \<Rightarrow> heap \<times> addr" where
  "newIssues h xs =
     (case alloc h (IssueArray []) of (h1, a) \<Rightarrow> (foldl (\<lambda>h' e. pushIssue h' a e) h1 xs, a))"

definition newSuggestions :: "heap \<Rightarrow> ValidationSuggestion list \<Rightarrow> heap \<times> addr" where
  "newSuggestions h xs =
     (case alloc h (SuggestionArray []) of
        (h1, a) \<Rightarrow> (foldl (\<lambda>h' e. pushSuggestion h' a e) h1 xs, a))"

section \<open>The operations on the store\<close>

text \<open>
  Each operation takes the store and the references it is called with, and returns the
  store it leaves.  What it computes is what the function above computes from the
  objects it reads; what it writes are the arrays it creates and returns.
\<close>

definition analyzeRuleContent_h :: "heap \<Rightarrow> string \<Rightarrow> heap \<times> addr" where
  "analyzeRuleContent_h h content =
     (let ca = analyzeRuleContent content
      in case newStrings h (skillPatterns ca) of (h1, a1) \<Rightarrow>
         case newStrings h1 (subagentPatterns ca) of (h2, a2) \<Rightarrow>
         case newStrings h2 (commandPatterns ca) of (h3, a3) \<Rightarrow>
         case newStrings h3 (rulePatterns ca) of (h4, a4) \<Rightarrow>
         case newStrings h4 (structuralFeatures ca) of (h5, a5) \<Rightarrow>
           alloc h5 (ContentAnalysisObj a1 a2 a3 a4 a5 (keywordDensity ca)))"

definition analyzeMetadata_h :: "heap \<Rightarrow> addr \<Rightarrow> heap \<times> addr" where
  "analyzeMetadata_h h ma =
     (let r = analyzeMetadata (loadMetadata h ma)
      in case newStrings h (typeHints r) of (h1, hints) \<Rightarrow>
         case newStrings h1 (conflictingSignals r) of (h2, conflicts) \<Rightarrow>
           alloc h2 (MetadataAnalysisObj (explicitType r) hints (confidence r) conflicts))"

definition detectAbstractionType_h :: "heap \<Rightarrow> addr \<Rightarrow> heap \<times> addr" where
  "detectAbstractionType_h h rb =
     (case loadRuleBlock h rb of (ma, content) \<Rightarrow>
        let m = loadMetadata h ma;
            metadataAnalysis = analyzeMetadata m;
            ti = detectAbstractionType m content
        in case analyzeMetadata_h h ma of (h1, maa) \<Rightarrow>
             if truthy (explicitType metadataAnalysis) \<and> confidence metadataAnalysis > dbl 0.9
             then (case newStrings h1 (indicators ti) of (h2, ia) \<Rightarrow>
                     alloc h2 (TypeInfoObj (ati_type ti) (ati_confidence ti) ia))
             else (case analyzeRuleContent_h h1 content of (h2, caa) \<Rightarrow>
                   case newStrings h2 (indicators ti) of (h3, ia) \<Rightarrow>
                     alloc h3 (TypeInfoObj (ati_type ti) (ati_confidence ti) ia)))"

text \<open>The arrays \<open>errors\<close>, \<open>warnings\<close> and \<open>suggestions\<close> and the result object that holds them.\<close>

definition newResult :: "heap \<Rightarrow> ValidationResult \<Rightarrow> heap \<times> addr" where
  "newResult h r =
     (case newIssues h (errors r) of (h1, ea) \<Rightarrow>
      case newIssues h1 (warnings r) of (h2, wa) \<Rightarrow>
      case newSuggestions h2 (suggestions r) of (h3, sa) \<Rightarrow>
        alloc h3 (ResultObj (valid r) ea wa sa))"

definition returnResult :: "heap \<Rightarrow> ValidationResult \<Rightarrow> heap \<times> (js_error + addr)" where
  "returnResult h r = (case newResult h r of (h', ra) \<Rightarrow> (h', Inr ra))"

definition validateSkill_h :: "heap \<Rightarrow> addr \<Rightarrow> string \<Rightarrow> heap \<times> (js_error + addr)" where
  "validateSkill_h h ma content =
     (case validateSkill (loadMetadata h ma) content of
        Inr r \<Rightarrow> returnResult h r
      | Inl e \<Rightarrow> (h, Inl e))"

text \<open>
  \<open>validateSubAgent\<close> has filled its three arrays when it raises; \<open>validateCommand\<close> has
  only created them.
\<close>

definition validateSubAgent_h :: "heap \<Rightarrow> addr \<Rightarrow> string \<Rightarrow> heap \<times> (js_error + addr)" where
  "validateSubAgent_h h ma content =
     (let m = loadMetadata h ma
      in case subAgentFindings m content of (e3, w2, s2) \<Rightarrow>
         case newIssues h e3 of (h1, ea) \<Rightarrow>
         case newIssues h1 w2 of (h2, wa) \<Rightarrow>
         case newSuggestions h2 s2 of (h3, sa) \<Rightarrow>
           if (case tools m of Some ts \<Rightarrow> length ts > 5 | None \<Rightarrow> False)
           then (let h4 = pushSuggestion h3 sa
                       (mkSuggestion ''SUBAGENT_TOO_MANY_TOOLS''
                          ''Consider reducing tool scope for better focus and performance''
                          (Some ''tools'') True)
                 in case alloc h4 (ResultObj (length e3 = 0) ea wa sa) of
                      (h5, ra) \<Rightarrow> (h5, Inr ra))
           else (h3, Inl (ReferenceError ''skill is not defined'')))"

definition validateCommand_h :: "heap \<Rightarrow> addr \<Rightarrow> string \<Rightarrow> heap \<times> (js_error + addr)" where
  "validateCommand_h h ma content =
     (case validateCommand (loadMetadata h ma) content of
        Inr r \<Rightarrow> returnResult h r
      | Inl e \<Rightarrow>
          (case newIssues h [] of (h1, ea) \<Rightarrow>
           case newIssues h1 [] of (h2, wa) \<Rightarrow>
           case newSuggestions h2 [] of (h3, sa) \<Rightarrow> (h3, Inl e)))"

definition validateRule_h :: "heap \<Rightarrow> addr \<Rightarrow> string \<Rightarrow> heap \<times> (js_error + addr)" where
  "validateRule_h h ma content =
     (case validateRule (loadMetadata h ma) content of
        Inr r \<Rightarrow> returnResult h r
      | Inl e \<Rightarrow> (h, Inl e))"

definition routeToSpecificValidator_h ::
  "heap \<Rightarrow> string \<Rightarrow> addr \<Rightarrow> string \<Rightarrow> heap \<times> (js_error + addr)" where
  "routeToSpecificValidator_h h t ma content =
     (if t = ''skill'' then validateSkill_h h ma content
      else if t = ''subagent'' then validateSubAgent_h h ma content
      else if t = ''command'' then validateCommand_h h ma content
      else if t = ''rule'' then validateRule_h h ma content
      else returnResult h
             \<lparr>valid = False,
              errors = [mkError ''UNKNOWN_TYPE'' (''Unknown abstraction type: '' @ t) (Some ''type'')],
              warnings = [], suggestions = []\<rparr>)"

text \<open>
  The dispatcher: \<open>{ type: _, ...metadataWithoutType } = metadata\<close> creates an object with
  the other properties of the metadata (the same array references), and
  \<open>result.warnings.push\<close> writes to the array that the result object refers to.
\<close>

definition warningsOf :: "heap \<Rightarrow> addr \<Rightarrow> addr" where
  "warningsOf h r = (case lookup h r of Some (ResultObj v ea wa sa) \<Rightarrow> wa | _ \<Rightarrow> r)"

definition validateAnyAbstraction_h ::
  "heap \<Rightarrow> addr nullable \<Rightarrow> string nullable \<Rightarrow> heap \<times> (js_error + addr)" where
  "validateAnyAbstraction_h h metadata content =
     (case metadata of
        Defined ma \<Rightarrow>
          (case content of
             Defined c \<Rightarrow>
               (let m = loadMetadata h ma
                in case (if truthy (type_m m) then (h, the (type_m m))
                         else (case alloc h (RuleBlockObj ma c) of
                                 (h', ruleBlock) \<Rightarrow>
                                   (fst (detectAbstractionType_h h' ruleBlock),
                                    ati_type (detectAbstractionType m c)))) of
                     (h1, detectedType) \<Rightarrow>
                   case routeToSpecificValidator_h h1 detectedType ma c of
                     (h2, Inl e) \<Rightarrow> (h2, Inl e)
                   | (h2, Inr result) \<Rightarrow>
                       if truthy (type_m m)
                       then (case alloc h2 (MetadataObj ((loadMetadataObj h2 ma)\<lparr>o_type := None\<rparr>)) of
                               (h3, metadataWithoutType) \<Rightarrow>
                             case alloc h3 (RuleBlockObj metadataWithoutType c) of
                               (h4, ruleBlock) \<Rightarrow>
                             case detectAbstractionType_h h4 ruleBlock of
                               (h5, ti) \<Rightarrow>
                             let typeInfo = detectAbstractionType (loadMetadata h4 metadataWithoutType) c
                             in if ati_type typeInfo \<noteq> the (type_m m) \<and> ati_confidence typeInfo > dbl 0.7
                                then (pushIssue h5 (warningsOf h5 result)
                                        (mkWarning ''ABSTRACTION_TYPE_MISMATCH''
                                           (''Content suggests \"'' @ ati_type typeInfo @
                                            ''\" but metadata specifies \"'' @ the (type_m m) @
                                            ''\". Consider reviewing the type or content.'')
                                           (Some ''type'')),
                                      Inr result)
                                else (h5, Inr result))
                       else (h2, Inr result))
           | _ \<Rightarrow> returnResult h
                    \<lparr>valid = False,
                     errors = [mkError ''MISSING_REQUIRED_FIELD''
                                 ''Content is required for validation'' None],
                     warnings = [], suggestions = []\<rparr>)
      | _ \<Rightarrow> returnResult h
               \<lparr>valid = False,
                errors = [mkError ''MISSING_REQUIRED_FIELD''
                            ''Metadata is required for validation'' None],
                warnings = [], suggestions = []\<rparr>)"

text \<open>A result object whose \<open>warnings\<close> array was created after \<open>h\<close>.\<close>

definition freshResult :: "heap \<Rightarrow> heap \<Rightarrow> addr \<Rightarrow> bool" where
  "freshResult h h' r =
     (case lookup h' r of Some (ResultObj v ea wa sa) \<Rightarrow> length h \<le> wa | _ \<Rightarrow> False)"

text \<open>
  The group validator.  \<open>dependencyGraph\<close> maps an id to the \<open>dependencies\<close> array of the
  document itself, by reference; \<open>overlappingScopes\<close> maps a scope to an array created
  for it, and \<open>overlappingScopes.get(scope)!.push(id)\<close> writes to the array that the map
  refers to.
\<close>

definition loadGraph :: "heap \<Rightarrow> addr \<Rightarrow> graph" where
  "loadGraph h dependencyGraph =
     map (\<lambda>entry. (fst entry, loadStrings h (snd entry))) (loadRefMap h dependencyGraph)"

definition indexStep_h :: "addr \<Rightarrow> addr \<Rightarrow> addr \<Rightarrow> heap \<Rightarrow> addr \<times> string \<Rightarrow> heap" where
  "indexStep_h errorsA commandTriggers dependencyGraph h abstraction =
     (let mo = loadMetadataObj h (fst abstraction);
          m = loadMetadata h (fst abstraction);
          h1 = (case o_dependencies mo of
                  Some deps \<Rightarrow> setRef h dependencyGraph (o_id mo) deps
                | None \<Rightarrow> h)
      in if type_m m = Some ''command'' \<and> truthy (trigger m)
         then (let existingId = map_of (loadStringMap h1 commandTriggers) (the (trigger m))
               in if truthy existingId
                  then pushIssue h1 errorsA
                         (mkError ''COMMAND_TRIGGER_CONFLICT''
                            (''Trigger \"'' @ the (trigger m) @ ''\" conflicts with command \"'' @
                             the existingId @ ''\"'')
                            (Some ''trigger''))
                  else setString h1 commandTriggers (the (trigger m)) (id_m m))
         else h1)"

definition invalidStep :: "addr \<Rightarrow> string set \<Rightarrow> heap \<Rightarrow> string \<times> addr \<Rightarrow> heap" where
  "invalidStep errorsA allIds h entry =
     (let invalidDeps = filter (\<lambda>depId. depId \<notin> allIds) (loadStrings h (snd entry))
      in if length invalidDeps > 0
         then pushIssue h errorsA
                (mkError ''INVALID_DEPENDENCY''
                   (''Invalid dependencies in \"'' @ fst entry @ ''\": '' @ join '', '' invalidDeps)
                   (Some ''dependencies''))
         else h)"

definition addScope_h :: "addr \<Rightarrow> string \<Rightarrow> heap \<Rightarrow> string \<Rightarrow> heap" where
  "addScope_h overlappingScopes ruleId h sc =
     (let h1 = (case map_of (loadRefMap h overlappingScopes) sc of
                  None \<Rightarrow> (case alloc h (StringArray []) of
                             (h', a) \<Rightarrow> setRef h' overlappingScopes sc a)
                | Some a \<Rightarrow> h)
      in case map_of (loadRefMap h1 overlappingScopes) sc of
           Some a \<Rightarrow> pushString h1 a ruleId
         | None \<Rightarrow> h1)"

definition ruleStep_h :: "addr \<Rightarrow> heap \<Rightarrow> addr \<times> string \<Rightarrow> heap" where
  "ruleStep_h overlappingScopes h r =
     foldl (addScope_h overlappingScopes (id_m (loadMetadata h (fst r)))) h
       (ruleScopes (loadMetadata h (fst r)))"

definition warnStep :: "addr \<Rightarrow> heap \<Rightarrow> string \<times> addr \<Rightarrow> heap" where
  "warnStep warningsA h entry =
     (let ruleIds = loadStrings h (snd entry)
      in if length ruleIds > 1
         then pushIssue h warningsA
                (mkWarning ''RULE_SCOPE_CONFLICT''
                   (''Multiple always-apply rules in scope \"'' @ fst entry @ ''\": '' @
                    join '', '' ruleIds @ ''. Consider setting priorities.'')
                   (Some ''scope''))
         else h)"

definition scopeConflicts_h :: "addr \<Rightarrow> heap \<Rightarrow> (addr \<times> string) list \<Rightarrow> heap" where
  "scopeConflicts_h warningsA h abstractions =
     (let alwaysApplyRules =
            filter (\<lambda>a. alwaysApply (loadMetadata h (fst a)) = Some True \<and>
                        type_m (loadMetadata h (fst a)) = Some ''rule'') abstractions
      in if length alwaysApplyRules > 1
         then (case alloc h (RefMap []) of
                 (h1, overlappingScopes) \<Rightarrow>
                   let h2 = foldl (ruleStep_h overlappingScopes) h1 alwaysApplyRules
                   in foldl (warnStep warningsA) h2 (loadRefMap h2 overlappingScopes))
         else h)"

definition validateAbstractionGroup_h :: "heap \<Rightarrow> addr \<Rightarrow> heap \<times> addr" where
  "validateAbstractionGroup_h h batch =
     (let abstractions = loadBatch h batch
      in case alloc h (IssueArray []) of (h1, errorsA) \<Rightarrow>
         case alloc h1 (IssueArray []) of (h2, warningsA) \<Rightarrow>
         case alloc h2 (SuggestionArray []) of (h3, suggestionsA) \<Rightarrow>
         case alloc h3 (StringMap []) of (h4, commandTriggers) \<Rightarrow>
         case alloc h4 (RefMap []) of (h5, dependencyGraph) \<Rightarrow>
           let h6 = foldl (indexStep_h errorsA commandTriggers dependencyGraph) h5 abstractions;
               g = loadGraph h6 dependencyGraph;
               h7 = (case findCycle g (map fst g) ({}, {}) of
                       Some nodeId \<Rightarrow>
                         pushIssue h6 errorsA
                           (mkError ''CIRCULAR_DEPENDENCY''
                              (''Circular dependency detected involving \"'' @ nodeId @ ''\"'')
                              (Some ''dependencies''))
                     | None \<Rightarrow> h6);
               allIds = set (map (\<lambda>a. id_m (loadMetadata h7 (fst a))) abstractions);
               h8 = foldl (invalidStep errorsA allIds) h7 (loadRefMap h7 dependencyGraph);
               h9 = scopeConflicts_h warningsA h8 abstractions
           in alloc h9 (ResultObj (length (loadIssues h9 errorsA) = 0)
                          errorsA warningsA suggestionsA))"

text \<open>The arrays that \<open>overlappingScopes\<close> refers to were created after \<open>h0\<close>.\<close>

definition freshValues :: "heap \<Rightarrow> heap \<Rightarrow> addr \<Rightarrow> bool" where
  "freshValues h0 h os = (extends h0 h \<and> list_all (\<lambda>entry. length h0 \<le> snd entry) (loadRefMap h os))"

text \<open>The result that an address denotes, and the outcome of a call.\<close>

definition loadResult :: "heap \<Rightarrow> addr \<Rightarrow> ValidationResult" where
  "loadResult h r =
     (case lookup h r of
        Some (ResultObj v ea wa sa) \<Rightarrow>
          \<lparr>valid = v, errors = loadIssues h ea, warnings = loadIssues h wa,
           suggestions = loadSuggestions h sa\<rparr>
      | _ \<Rightarrow> \<lparr>valid = False, errors = [], warnings = [], suggestions = []\<rparr>)"

definition loadOutcome :: "heap \<Rightarrow> js_error + addr \<Rightarrow> js_error + ValidationResult" where
  "loadOutcome h x = (case x of Inl e \<Rightarrow> Inl e | Inr r \<Rightarrow> Inr (loadResult h r))"

text \<open>
  A metadata object of a well-formed store: the address denotes a metadata object, and
  the arrays it refers to exist.
\<close>

definition refBelow :: "nat \<Rightarrow> addr option \<Rightarrow> bool" where
  "refBelow n r = (case r of Some a \<Rightarrow> a < n | None \<Rightarrow> True)"

definition refsBelow :: "nat \<Rightarrow> metadata_obj \<Rightarrow> bool" where
  "refsBelow n mo =
     ((case o_scope mo of Some (ScopeAt a) \<Rightarrow> a < n | _ \<Rightarrow> True) \<and>
      refBelow n (o_triggers mo) \<and> refBelow n (o_expertise mo) \<and>
      refBelow n (o_dependencies mo) \<and> refBelow n (o_examples mo) \<and>
      refBelow n (o_tools mo) \<and> refBelow n (o_arguments mo))"

definition wellFormedAt :: "heap \<Rightarrow> addr \<Rightarrow> bool" where
  "wellFormedAt h ma =
     (case lookup h ma of Some (MetadataObj mo) \<Rightarrow> refsBelow (length h) mo | _ \<Rightarrow> False)"

definition loadNullable :: "heap \<Rightarrow> addr nullable \<Rightarrow> metadata nullable" where
  "loadNullable h md =
     (case md of Defined ma \<Rightarrow> Defined (loadMetadata h ma) | Null \<Rightarrow> Null | Undefined \<Rightarrow> Undefined)"

text \<open>A result object with its three arrays in place, \<open>errors\<close> and \<open>warnings\<close> distinct.\<close>

definition isIssueArray :: "heap \<Rightarrow> addr \<Rightarrow> bool" where
  "isIssueArray h a = (case lookup h a of Some (IssueArray es) \<Rightarrow> True | _ \<Rightarrow> False)"

definition isSuggestionArray :: "heap \<Rightarrow> addr \<Rightarrow> bool" where
  "isSuggestionArray h a = (case lookup h a of Some (SuggestionArray ss) \<Rightarrow> True | _ \<Rightarrow> False)"

definition goodResult :: "heap \<Rightarrow> addr \<Rightarrow> bool" where
  "goodResult h r =
     (case lookup h r of
        Some (ResultObj v ea wa sa) \<Rightarrow>
          ea \<noteq> wa \<and> isIssueArray h ea \<and> isIssueArray h wa \<and> isSuggestionArray h sa
      | _ \<Rightarrow> False)"

section \<open>Predicates on results\<close>

text \<open>The invariant of a \<open>ValidationResult\<close>: \<open>valid == (errors.length == 0)\<close>.\<close>

definition validMatchesErrors :: "ValidationResult \<Rightarrow> bool" where
  "validMatchesErrors r = (valid r = (length (errors r) = 0))"

text \<open>A call that returned a result, and the invariant of the result of a call that returned.\<close>

definition returned :: "js_error + ValidationResult \<Rightarrow> bool" where
  "returned x = (case x of Inl e \<Rightarrow> False | Inr r \<Rightarrow> True)"

definition okIfReturned :: "js_error + ValidationResult \<Rightarrow> bool" where
  "okIfReturned x = (case x of Inl e \<Rightarrow> True | Inr r \<Rightarrow> validMatchesErrors r)"

text \<open>The errors of a result that carry a given code.\<close>

definition circularErrors :: "ValidationResult \<Rightarrow> ValidationError list" where
  "circularErrors r = filter (\<lambda>e. code e = ''CIRCULAR_DEPENDENCY'') (errors r)"

definition triggerConflicts :: "ValidationResult \<Rightarrow> ValidationError list" where
  "triggerConflicts r = filter (\<lambda>e. code e = ''COMMAND_TRIGGER_CONFLICT'') (errors r)"

section \<open>Concrete metadata\<close>

text \<open>The metadata object \<open>{ id }\<close>: every optional property absent.\<close>

definition bareMetadata :: "string \<Rightarrow> metadata" where
  "bareMetadata i =
     \<lparr>id_m = i, type_m = None, alwaysApply = None, scope = None, triggers = None,
      manual = None, priority = None, description = None, expertise = None,
      dependencies = None, portability = None, examples = None, model = None, tools = None,
      isolatedContext = None, systemPrompt = None, trigger = None, userInvoked = None,
      arguments = None\<rparr>"

text \<open>The documents used to evaluate the validators and the classifier.\<close>

definition plainSubagent :: metadata where
  "plainSubagent = (bareMetadata ''code-refactoring-agent'')
     \<lparr>type_m := Some ''subagent'', isolatedContext := Some True\<rparr>"

definition buildCommand :: metadata where
  "buildCommand = (bareMetadata ''command-1'')
     \<lparr>type_m := Some ''command'', trigger := Some ''/build'', userInvoked := Some True\<rparr>"

definition alwaysApplySubagent :: metadata where
  "alwaysApplySubagent = (bareMetadata ''subagent-always-apply'')
     \<lparr>type_m := Some ''subagent'', isolatedContext := Some True, alwaysApply := Some True\<rparr>"

definition cliScoped :: metadata where
  "cliScoped = (bareMetadata ''x'')\<lparr>scope := Some (ScopeArray [''cli''])\<rparr>"

definition manyToolsSubagent :: metadata where
  "manyToolsSubagent = (bareMetadata ''agent'')
     \<lparr>type_m := Some ''subagent'', isolatedContext := Some True,
      tools := Some [''bash'', ''python'', ''node'', ''git'', ''docker'', ''jest'']\<rparr>"

definition explicitRule :: metadata where
  "explicitRule = (bareMetadata ''rule-1'')\<lparr>type_m := Some ''rule''\<rparr>"

definition cycleA :: metadata where
  "cycleA = (bareMetadata ''skill-1'')
     \<lparr>type_m := Some ''skill'', expertise := Some [''testing''],
      dependencies := Some [''skill-2'']\<rparr>"

definition cycleB :: metadata where
  "cycleB = (bareMetadata ''skill-2'')
     \<lparr>type_m := Some ''skill'', expertise := Some [''building''],
      dependencies := Some [''skill-1'']\<rparr>"

definition buildCommand2 :: metadata where
  "buildCommand2 = (bareMetadata ''command-2'')
     \<lparr>type_m := Some ''command'', trigger := Some ''/build'', userInvoked := Some True\<rparr>"

definition emptyTriggerCommand :: "string \<Rightarrow> metadata" where
  "emptyTriggerCommand i = (bareMetadata i)\<lparr>type_m := Some ''command'', trigger := Some []\<rparr>"

definition namelessBuildCommand :: metadata where
  "namelessBuildCommand = (bareMetadata [])\<lparr>type_m := Some ''command'', trigger := Some ''/build''\<rparr>"

section \<open>Properties of the classifier\<close>

lemma bareMetadata_sel [simp]:
  "id_m (bareMetadata i) = i" "type_m (bareMetadata i) = None"
  "alwaysApply (bareMetadata i) = None" "scope (bareMetadata i) = None"
  "triggers (bareMetadata i) = None" "manual (bareMetadata i) = None"
  "priority (bareMetadata i) = None" "description (bareMetadata i) = None"
  "expertise (bareMetadata i) = None" "dependencies (bareMetadata i) = None"
  "portability (bareMetadata i) = None" "examples (bareMetadata i) = None"
  "model (bareMetadata i) = None" "tools (bareMetadata i) = None"
  "isolatedContext (bareMetadata i) = None" "systemPrompt (bareMetadata i) = None"
  "trigger (bareMetadata i) = None" "userInvoked (bareMetadata i) = None"
  "arguments (bareMetadata i) = None"
  by (simp_all add: bareMetadata_def)

text \<open>The exponent that \<open>binade\<close> computes, and the rounding.\<close>

lemma pow2_powi: "pow2 e = 2 powi e"
  by (simp add: pow2_def power_int_def power_inverse divide_simps)

lemma pow2_pos: "0 < pow2 e"
  by (simp add: pow2_def)

lemma pow2_succ: "pow2 (e + 1) = 2 * pow2 e"
  by (simp add: pow2_powi power_int_add)

lemma binadeUp_bounds:
  "1 \<le> x \<Longrightarrow> pow2 (binadeUp x e - e) \<le> x \<and> x < pow2 (binadeUp x e - e + 1)"
proof (induction x e rule: binadeUp.induct)
  case (1 x e)
  show ?case
  proof (cases "2 \<le> x")
    case True
    have s: "binadeUp x e = binadeUp (x / 2) (e + 1)"
      using True by (simp add: binadeUp.simps[of x e])
    define k where "k = binadeUp (x / 2) (e + 1) - (e + 1)"
    have ih: "pow2 k \<le> x / 2 \<and> x / 2 < pow2 (k + 1)"
      using 1(1)[OF True] True by (simp add: k_def)
    have e1: "binadeUp x e - e = k + 1" by (simp add: s k_def)
    have "pow2 (k + 1) \<le> x \<and> x < pow2 (k + 1 + 1)"
      unfolding pow2_succ using ih[unfolded pow2_succ] by simp
    then show ?thesis
      unfolding e1 .
  next
    case False
    have s: "binadeUp x e = e"
      using False by (simp add: binadeUp.simps[of x e])
    show ?thesis
      using False 1(2) by (simp add: s pow2_def)
  qed
qed

lemma binadeDown_bounds:
  "0 < x \<Longrightarrow> x < 2 \<Longrightarrow> pow2 (binadeDown x e - e) \<le> x \<and> x < pow2 (binadeDown x e - e + 1)"
proof (induction x e rule: binadeDown.induct)
  case (1 x e)
  show ?case
  proof (cases "0 < x \<and> x < 1")
    case True
    have s: "binadeDown x e = binadeDown (x * 2) (e - 1)"
      using True by (simp add: binadeDown.simps[of x e])
    define k where "k = binadeDown (x * 2) (e - 1) - (e - 1)"
    have ih: "pow2 k \<le> x * 2 \<and> x * 2 < pow2 (k + 1)"
      using 1(1)[OF True] True by (simp add: k_def)
    have e1: "binadeDown x e - e = k - 1" by (simp add: s k_def)
    have p: "pow2 k = 2 * pow2 (k - 1)" using pow2_succ[of "k - 1"] by simp
    have q: "pow2 (k + 1) = 2 * pow2 k" by (rule pow2_succ)
    have "pow2 (k - 1) \<le> x \<and> x < pow2 k"
      using ih unfolding q by (simp add: p)
    then show ?thesis
      unfolding e1 by simp
  next
    case False
    have s: "binadeDown x e = e"
      using False by (subst binadeDown.simps) auto
    show ?thesis
      using False 1(2,3) by (simp add: s pow2_def)
  qed
qed

lemma binade_bounds:
  assumes "0 < x"
  shows "pow2 (binade x) \<le> x \<and> x < pow2 (binade x + 1)"
proof (cases "1 \<le> x")
  case True
  then show ?thesis using binadeUp_bounds[of x 0] by (simp add: binade_def)
next
  case False
  then show ?thesis using binadeDown_bounds[of x 0] assms by (simp add: binade_def)
qed

lemma roundHalfEven_near: "\<bar>of_int (roundHalfEven y) - y\<bar> \<le> 1 / 2"
proof -
  define f where "f = \<lfloor>y\<rfloor>"
  have b: "of_int f \<le> y" "y < of_int f + 1"
    by (simp_all add: f_def)
  show ?thesis
  proof (cases "y - of_int f < 1 / 2")
    case True
    then have "roundHalfEven y = f" by (simp add: roundHalfEven_def f_def)
    then show ?thesis using True b by simp
  next
    case False
    note nl = False
    show ?thesis
    proof (cases "1 / 2 < y - of_int f")
      case True
      then have "roundHalfEven y = f + 1" using nl by (simp add: roundHalfEven_def f_def)
      then show ?thesis using True b by simp
    next
      case False
      then have h: "y - of_int f = 1 / 2" using nl by simp
      have "roundHalfEven y = f \<or> roundHalfEven y = f + 1"
        using h by (simp add: roundHalfEven_def f_def[symmetric] Let_def)
      then show ?thesis using h by auto
    qed
  qed
qed

lemma roundHalfEven_between:
  assumes "of_int a \<le> y" "y \<le> of_int b"
  shows "a \<le> roundHalfEven y \<and> roundHalfEven y \<le> b"
proof -
  have f: "a \<le> \<lfloor>y\<rfloor>" using assms(1) by (simp add: le_floor_iff)
  have g: "\<lfloor>y\<rfloor> \<le> b" using assms(2) by linarith
  have h: "y - of_int \<lfloor>y\<rfloor> = 0 \<or> \<lfloor>y\<rfloor> + 1 \<le> b"
  proof (cases "y = of_int \<lfloor>y\<rfloor>")
    case True then show ?thesis by simp
  next
    case False
    then have "of_int \<lfloor>y\<rfloor> < y" by (metis of_int_floor_le order_less_le)
    then have "of_int \<lfloor>y\<rfloor> < (of_int b :: real)" using assms(2) by linarith
    then have "\<lfloor>y\<rfloor> < b" by simp
    then show ?thesis by simp
  qed
  show ?thesis
    unfolding roundHalfEven_def Let_def using f g h by auto
qed

text \<open>
  The rounding of a number other than 0 has a significand of 53 bits, at the exponent of
  the number, and is within half a unit in the last place of the number.
\<close>

lemma roundDouble_nearest:
  assumes "x \<noteq> 0"
  shows "\<exists>m. roundDouble x = of_int m * pow2 (binade \<bar>x\<bar> - 52) \<and>
             2 ^ 52 \<le> \<bar>m\<bar> \<and> \<bar>m\<bar> \<le> 2 ^ 53 \<and>
             \<bar>roundDouble x - x\<bar> \<le> pow2 (binade \<bar>x\<bar> - 52) / 2"
proof -
  define e where "e = binade \<bar>x\<bar> - 52"
  have r0: "roundDouble x = of_int (roundHalfEven (x / pow2 e)) * pow2 e"
    using assms(1) by (simp add: roundDouble_def Let_def e_def)
  define y where "y = x / pow2 e"
  define m where "m = roundHalfEven y"
  have r: "roundDouble x = of_int m * pow2 e"
    unfolding r0 m_def y_def ..
  have x: "x = y * pow2 e" using pow2_pos[of e] by (simp add: y_def)
  have b: "pow2 (e + 52) \<le> \<bar>x\<bar> \<and> \<bar>x\<bar> < pow2 (e + 52 + 1)"
    using binade_bounds[of "\<bar>x\<bar>"] assms by (simp add: e_def)
  have p52: "pow2 (e + 52) = 2 ^ 52 * pow2 e" "pow2 (e + 52 + 1) = 2 ^ 53 * pow2 e"
    by (simp_all add: pow2_powi power_int_add)
  have ay: "\<bar>x\<bar> = \<bar>y\<bar> * pow2 e" using pow2_pos[of e] by (simp add: x abs_mult)
  have yb: "2 ^ 52 \<le> \<bar>y\<bar> \<and> \<bar>y\<bar> \<le> 2 ^ 53"
    using b pow2_pos[of e] unfolding p52 ay by simp
  have mb: "2 ^ 52 \<le> \<bar>m\<bar> \<and> \<bar>m\<bar> \<le> 2 ^ 53"
  proof (cases "0 \<le> y")
    case True
    then have "of_int (2 ^ 52) \<le> y" "y \<le> of_int (2 ^ 53)" using yb by simp_all
    from roundHalfEven_between[OF this] show ?thesis by (simp add: m_def)
  next
    case False
    then have "of_int (- (2 ^ 53)) \<le> y" "y \<le> of_int (- (2 ^ 52))" using yb by simp_all
    from roundHalfEven_between[OF this] show ?thesis by (simp add: m_def)
  qed
  have "of_int m * pow2 e - x = (of_int m - y) * pow2 e"
    by (simp add: x algebra_simps)
  then have "roundDouble x - x = (of_int m - y) * pow2 e"
    unfolding r .
  then have "\<bar>roundDouble x - x\<bar> = \<bar>of_int m - y\<bar> * pow2 e"
    using pow2_pos[of e] by (simp add: abs_mult)
  also have "\<dots> \<le> (1 / 2) * pow2 e"
    using roundHalfEven_near[of y] pow2_pos[of e] unfolding m_def
    by (intro mult_right_mono) simp_all
  finally have n: "\<bar>roundDouble x - x\<bar> \<le> pow2 e / 2" by simp
  show ?thesis using r mb n unfolding e_def by blast
qed

lemma roundDouble_zero: "roundDouble 0 = 0"
  by (simp add: roundDouble_def)

lemma roundDouble_one: "roundDouble 1 = 1"
  by (simp add: roundDouble_def binade_def binadeUp.simps pow2_def roundHalfEven_def)

lemma ddiv_self: "0 < x \<Longrightarrow> ddiv x x = 1"
  by (simp add: ddiv_def roundDouble_one)

lemma dmul_zero: "dmul 0 x = 0"
  by (simp add: dmul_def roundDouble_zero)

text \<open>The doubles that the literals \<open>0.3\<close> and \<open>0.5\<close> denote: \<open>0.5\<close> is exact, \<open>0.3\<close> is not.\<close>

lemma dbl_03: "dbl 0.3 = 5404319552844595 / 18014398509481984"
  by (simp add: dbl_def roundDouble_def binade_def binadeDown.simps pow2_def roundHalfEven_def
      Let_def)

lemma dbl_05: "dbl 0.5 = 1 / 2" "dbl (1 / 2) = 1 / 2"
  by (simp_all add: dbl_def roundDouble_def binade_def binadeDown.simps pow2_def roundHalfEven_def
      Let_def)

lemma dbl_06: "dbl 0.6 = 5404319552844595 / 9007199254740992"
  "dbl (3 / 5) = 5404319552844595 / 9007199254740992"
  by (simp_all add: dbl_def roundDouble_def binade_def binadeDown.simps pow2_def roundHalfEven_def
      Let_def)

lemma dbl_07: "dbl 0.7 = 3152519739159347 / 4503599627370496"
  by (simp add: dbl_def roundDouble_def binade_def binadeDown.simps pow2_def roundHalfEven_def
      Let_def)

text \<open>
  The sums of doubles are not the sums of reals: the content score of one keyword found
  three times exceeds the structural boost \<open>0.3\<close>, which it equals in exact arithmetic.
\<close>

lemma content_score_above_boost:
  "dadd (dmul 1 (dbl 0.15)) (dmul 3 (dbl 0.05)) > dadd 0 (dbl 0.3)"
  by code_simp

lemma normalizeScores_max:
  assumes "maxOfScores s > 0"
  shows "maxOfScores (normalizeScores s) = 1"
proof -
  define M where "M = maxOfScores s"
  have M: "M > 0" using assms M_def by simp
  have one: "skill s = M \<or> subagent s = M \<or> command s = M \<or> rule s = M"
    unfolding M_def maxOfScores_def by linarith
  have n: "normalizeScores s =
      \<lparr>skill = min (ddiv (skill s) M) 1, subagent = min (ddiv (subagent s) M) 1,
       command = min (ddiv (command s) M) 1,
       rule = max (min (ddiv (rule s) M) 1) (dbl 0.3)\<rparr>"
    using M by (simp add: normalizeScores_def Let_def M_def[symmetric])
  have ub: "maxOfScores (normalizeScores s) \<le> 1"
    unfolding n maxOfScores_def by (simp add: dbl_03)
  have lb: "1 \<le> maxOfScores (normalizeScores s)"
    unfolding n maxOfScores_def using one ddiv_self[OF M]
    by (auto simp: le_max_iff_disj)
  show ?thesis using ub lb by simp
qed

lemma detect_confidence_inferred:
  assumes "\<not> truthy (type_m m)"
  shows "ati_confidence (detectAbstractionType m c) =
     (let sc = calculateTypeScores (analyzeRuleContent c) (analyzeMetadata m);
          mx = maxOfScores sc
      in if findMaxType sc mx = ''rule'' then max mx (dbl 0.5) else mx)"
  using assms by (simp add: detectAbstractionType_def analyzeMetadata_def Let_def)

lemma detect_type_inferred:
  assumes "\<not> truthy (type_m m)"
  shows "ati_type (detectAbstractionType m c) =
     (let sc = calculateTypeScores (analyzeRuleContent c) (analyzeMetadata m)
      in findMaxType sc (maxOfScores sc))"
  using assms by (simp add: detectAbstractionType_def analyzeMetadata_def Let_def)

lemma analyzeRuleContent_empty:
  "analyzeRuleContent [] =
     \<lparr>skillPatterns = [], subagentPatterns = [], commandPatterns = [], rulePatterns = [],
      structuralFeatures = [], keywordDensity = Map.empty\<rparr>"
  by (simp add: analyzeRuleContent_def toLowerCase_def SKILL_KEYWORDS_def SUBAGENT_KEYWORDS_def
      COMMAND_KEYWORDS_def RULE_KEYWORDS_def STRUCTURAL_PATTERNS_def numberedItem_def
      bulletItem_def slashToken_def fencedBlock_def stepNumber_def)

lemma analyzeMetadata_no_hints:
  assumes "type_m m = None" "triggers m = None" "manual m = None" "alwaysApply m = None"
    "expertise m = None" "scope m = None"
  shows "analyzeMetadata m =
     \<lparr>explicitType = None, typeHints = [], confidence = 0, conflictingSignals = []\<rparr>"
  using assms by (simp add: analyzeMetadata_def)

lemma rawTypeScores_nothing:
  "rawTypeScores
     \<lparr>skillPatterns = [], subagentPatterns = [], commandPatterns = [], rulePatterns = [],
      structuralFeatures = [], keywordDensity = Map.empty\<rparr>
     \<lparr>explicitType = None, typeHints = [], confidence = 0, conflictingSignals = []\<rparr> =
   \<lparr>skill = 0, subagent = 0, command = 0, rule = 0\<rparr>"
  by (simp add: rawTypeScores_def calculateContentScore_def)

lemma normalizeScores_zero:
  "normalizeScores \<lparr>skill = 0, subagent = 0, command = 0, rule = 0\<rparr> =
   \<lparr>skill = 0, subagent = 0, command = 0, rule = dbl 0.3\<rparr>"
  by (simp add: normalizeScores_def maxOfScores_def dbl_03)

text \<open>
  C4.  With empty content and metadata that has neither a type nor any of the hint
  properties (\<open>triggers\<close>, \<open>manual\<close>, \<open>alwaysApply\<close>, \<open>expertise\<close>, \<open>scope\<close>), the
  classifier answers \<open>rule\<close> with confidence at least 0.5.  And whatever the content
  analysis and the metadata analysis are, the rule score that \<open>calculateTypeScores\<close>
  returns is at least 0.3 and is not 0.  The bound \<open>dbl 0.3\<close> is the number that the
  literal \<open>0.3\<close> denotes in the program, so \<open>score >= 0.3\<close> holds there; \<open>0.5\<close> is itself
  a double.
\<close>

theorem C4_rule_fallback_and_floor:
  assumes "type_m m = None" "triggers m = None" "manual m = None" "alwaysApply m = None"
    "expertise m = None" "scope m = None"
  shows "ati_type (detectAbstractionType m []) = ''rule'' \<and>
         ati_confidence (detectAbstractionType m []) \<ge> 0.5 \<and>
         (\<forall>ca ma. rule (calculateTypeScores ca ma) \<ge> dbl 0.3 \<and>
                  rule (calculateTypeScores ca ma) > 0)"
proof -
  have nt: "\<not> truthy (type_m m)" using assms(1) by simp
  have sc: "calculateTypeScores (analyzeRuleContent []) (analyzeMetadata m) =
      \<lparr>skill = 0, subagent = 0, command = 0, rule = dbl 0.3\<rparr>"
    by (simp only: calculateTypeScores_def analyzeRuleContent_empty
        analyzeMetadata_no_hints[OF assms] rawTypeScores_nothing normalizeScores_zero)
  have mx: "maxOfScores \<lparr>skill = 0, subagent = 0, command = 0, rule = dbl 0.3\<rparr> = dbl 0.3"
    by (simp add: maxOfScores_def dbl_03)
  have ft: "findMaxType \<lparr>skill = 0, subagent = 0, command = 0, rule = dbl 0.3\<rparr> (dbl 0.3) =
      ''rule''"
    by (simp add: findMaxType_def dbl_03)
  have floor: "rule (calculateTypeScores ca ma) \<ge> dbl 0.3" for ca ma
    by (simp add: calculateTypeScores_def normalizeScores_def Let_def)
  have pos: "rule (calculateTypeScores ca ma) > 0" for ca ma
    using floor[of ca ma] by (simp add: dbl_03)
  have ty: "ati_type (detectAbstractionType m []) = ''rule''"
    by (simp add: detect_type_inferred[OF nt] sc mx ft)
  have "ati_confidence (detectAbstractionType m []) = max (dbl 0.3) (dbl 0.5)"
    by (simp add: detect_confidence_inferred[OF nt] sc mx ft)
  then have cf: "ati_confidence (detectAbstractionType m []) \<ge> 0.5"
    by (simp add: dbl_03 dbl_05)
  show ?thesis
    using ty cf floor pos by simp
qed

theorem C4_rule_fallback_and_floor_witness:
  "ati_type (detectAbstractionType (bareMetadata ''empty-1'') []) = ''rule'' \<and>
   ati_confidence (detectAbstractionType (bareMetadata ''empty-1'') []) \<ge> 0.5 \<and>
   (\<forall>ca ma. rule (calculateTypeScores ca ma) \<ge> dbl 0.3 \<and>
            rule (calculateTypeScores ca ma) > 0)"
  using C4_rule_fallback_and_floor [of "bareMetadata ''empty-1''"] by simp

text \<open>
  C10.  For a document without an explicit type, as soon as one of the four raw scores is
  positive the reported confidence is exactly 1, whichever category wins: the scores are
  divided by their maximum, and the quotient of a double by itself is 1.
\<close>

theorem C10_confidence_is_one:
  assumes "\<not> truthy (type_m m)"
    and "skill (rawTypeScores (analyzeRuleContent c) (analyzeMetadata m)) > 0 \<or>
         subagent (rawTypeScores (analyzeRuleContent c) (analyzeMetadata m)) > 0 \<or>
         command (rawTypeScores (analyzeRuleContent c) (analyzeMetadata m)) > 0 \<or>
         rule (rawTypeScores (analyzeRuleContent c) (analyzeMetadata m)) > 0"
  shows "ati_confidence (detectAbstractionType m c) = 1"
proof -
  let ?r = "rawTypeScores (analyzeRuleContent c) (analyzeMetadata m)"
  have "maxOfScores ?r > 0"
    using assms(2) unfolding maxOfScores_def by linarith
  then have "maxOfScores (calculateTypeScores (analyzeRuleContent c) (analyzeMetadata m)) = 1"
    by (simp add: calculateTypeScores_def normalizeScores_max)
  then show ?thesis
    using assms(1) by (simp add: detect_confidence_inferred Let_def dbl_05)
qed

lemma rule_score_of_must:
  "rule (rawTypeScores (analyzeRuleContent ''must'') (analyzeMetadata (bareMetadata ''r''))) =
   dbl 0.2"
  by code_simp

lemma dbl_02: "dbl 0.2 = 3602879701896397 / 18014398509481984"
  "dbl (1 / 5) = 3602879701896397 / 18014398509481984"
  by (simp_all add: dbl_def roundDouble_def binade_def binadeDown.simps pow2_def roundHalfEven_def
      Let_def)

theorem C10_confidence_is_one_witness:
  "\<not> truthy (type_m (bareMetadata ''r'')) \<and>
   rule (rawTypeScores (analyzeRuleContent ''must'') (analyzeMetadata (bareMetadata ''r''))) > 0 \<and>
   ati_confidence (detectAbstractionType (bareMetadata ''r'') ''must'') = 1"
  using C10_confidence_is_one [of "bareMetadata ''r''" "''must''"] rule_score_of_must
  by (simp add: dbl_02)

text \<open>
  Two documents whose classification depends on the rounding.  In the first the rule
  score \<open>0.15 + 3 * 0.05\<close> exceeds the subagent score \<open>0 + 0.3\<close>; in the second the
  command score \<open>0.15 + 0.05 + 0.4\<close> exceeds the skill score \<open>3 * 0.15 + 3 * 0.05\<close>.  In
  exact arithmetic each pair is a tie, which the earlier category would win.
\<close>

lemma rule_wins_by_rounding:
  "ati_type (detectAbstractionType (bareMetadata ''x'') ''step 2 must must must'') = ''rule''"
  by code_simp

lemma command_wins_by_rounding:
  "ati_type (detectAbstractionType (bareMetadata ''x'') ''/x approach method strategy'') =
   ''command''"
  by code_simp

section \<open>Properties of the validators\<close>

text \<open>
  C5.  Called with \<open>null\<close> or \<open>undefined\<close> metadata, whatever the content, or with
  \<open>null\<close> or \<open>undefined\<close> content, whatever the metadata, the dispatcher returns
  (it raises nothing) the invalid result with the single error \<open>MISSING_REQUIRED_FIELD\<close>
  and no warning or suggestion.
\<close>

theorem C5_missing_metadata_or_content:
  "validateAnyAbstraction Null content =
     Inr \<lparr>valid = False,
          errors = [mkError ''MISSING_REQUIRED_FIELD'' ''Metadata is required for validation'' None],
          warnings = [], suggestions = []\<rparr> \<and>
   validateAnyAbstraction Undefined content =
     Inr \<lparr>valid = False,
          errors = [mkError ''MISSING_REQUIRED_FIELD'' ''Metadata is required for validation'' None],
          warnings = [], suggestions = []\<rparr> \<and>
   validateAnyAbstraction (Defined m) Null =
     Inr \<lparr>valid = False,
          errors = [mkError ''MISSING_REQUIRED_FIELD'' ''Content is required for validation'' None],
          warnings = [], suggestions = []\<rparr> \<and>
   validateAnyAbstraction (Defined m) Undefined =
     Inr \<lparr>valid = False,
          errors = [mkError ''MISSING_REQUIRED_FIELD'' ''Content is required for validation'' None],
          warnings = [], suggestions = []\<rparr>"
  by (simp add: validateAnyAbstraction_def)

text \<open>
  Where the validators do not return: \<open>validateSubAgent\<close> unless more than five tools
  are declared, \<open>validateCommand\<close> when the trigger starts with a slash.
\<close>

lemma validateSubAgent_few_tools:
  assumes "tools m = None \<or> (\<exists>ts. tools m = Some ts \<and> length ts \<le> 5)"
  shows "validateSubAgent m content = Inl (ReferenceError ''skill is not defined'')"
  using assms by (auto simp: validateSubAgent_def split: prod.splits)

lemma validateCommand_slash_trigger:
  assumes "trigger m = Some t" "startsWith t ''/''"
  shows "validateCommand m content = Inl (ReferenceError ''subagent is not defined'')"
proof -
  have "t \<noteq> []" using assms(2) by (cases t) auto
  then show ?thesis using assms by (simp add: validateCommand_def)
qed

text \<open>
  C1.  The claim is that the category validators and the dispatcher return a result on
  every input of the documented contract, the dispatcher catching what a validator
  raises.  On the code, a subagent with \<open>isolatedContext\<close> set and a command whose
  trigger starts with a slash make their validators raise a \<open>ReferenceError\<close>, and
  the dispatcher lets it through.
\<close>

theorem C1_validators_raise:
  "validateSubAgent plainSubagent ''Step 1: Process'' = Inl (ReferenceError ''skill is not defined'') \<and>
   validateAnyAbstraction (Defined plainSubagent) (Defined ''Step 1: Process'') =
     Inl (ReferenceError ''skill is not defined'') \<and>
   validateCommand buildCommand ''Execute build process'' =
     Inl (ReferenceError ''subagent is not defined'') \<and>
   validateAnyAbstraction (Defined buildCommand) (Defined ''Execute build process'') =
     Inl (ReferenceError ''subagent is not defined'')"
proof -
  have s: "validateSubAgent plainSubagent ''Step 1: Process'' = Inl (ReferenceError ''skill is not defined'')"
    by (rule validateSubAgent_few_tools) (simp add: plainSubagent_def)
  have c: "validateCommand buildCommand ''Execute build process'' =
     Inl (ReferenceError ''subagent is not defined'')"
    by (rule validateCommand_slash_trigger[where t = "''/build''"]) (simp_all add: buildCommand_def)
  have ts: "type_m plainSubagent = Some ''subagent''" by (simp add: plainSubagent_def)
  have tc: "type_m buildCommand = Some ''command''" by (simp add: buildCommand_def)
  show ?thesis
    by (simp add: s c ts tc validateAnyAbstraction_def routeToSpecificValidator_def)
qed

text \<open>
  C3.  The claim is that \<open>validateSubAgent\<close> with \<open>isolatedContext: true\<close> and
  \<open>alwaysApply: true\<close> returns a result whose errors include
  \<open>SUBAGENT_RULE_CONFLICT\<close>.  On the code, the error is pushed and then the function
  raises before its \<open>return\<close>: no result reaches the caller.
\<close>

theorem C3_rule_conflict_not_reported:
  "validateSubAgent alwaysApplySubagent ''Step 1: Process'' =
     Inl (ReferenceError ''skill is not defined'')"
  by (rule validateSubAgent_few_tools) (simp add: alwaysApplySubagent_def)

text \<open>
  C8.  The claim is that every metadata hint boosts the score of its category, a scope
  entry containing \<open>cli\<close> boosting the command score by 0.6 * 0.3.  On the code, the
  hint is recorded with confidence 0.6 and no branch of the score computation reads it:
  the raw command score stays 0, which is not the product of 0.6 and 0.3.
\<close>

theorem C8_scope_hint_not_boosted:
  "typeHints (analyzeMetadata cliScoped) = [''command-related scope''] \<and>
   confidence (analyzeMetadata cliScoped) = dbl 0.6 \<and>
   command (rawTypeScores (analyzeRuleContent []) (analyzeMetadata cliScoped)) = 0 \<and>
   dmul (dbl 0.6) (dbl 0.3) \<noteq> 0"
proof -
  have am: "analyzeMetadata cliScoped =
     \<lparr>explicitType = None, typeHints = [''command-related scope''], confidence = dbl 0.6,
      conflictingSignals = []\<rparr>"
    by (simp add: analyzeMetadata_def cliScoped_def scopeList_def dbl_06)
  have b: "dmul (dbl 0.6) (dbl 0.3) \<noteq> 0"
    by code_simp
  show ?thesis
    using b by (simp add: am analyzeRuleContent_empty rawTypeScores_def calculateContentScore_def)
qed

text \<open>
  The validators are chains of \<open>let\<close> that end in a result built from the error list:
  the two predicates go through the chain without unfolding it.
\<close>

lemma okr_Let: "(\<And>x. okIfReturned (f x)) \<Longrightarrow> okIfReturned (Let a f)"
  by (simp add: Let_def)

lemma okr_If: "okIfReturned a \<Longrightarrow> okIfReturned b \<Longrightarrow> okIfReturned (if c then a else b)"
  by simp

lemma okr_Inr:
  "okIfReturned (Inr \<lparr>valid = (length es = 0), errors = es, warnings = ws, suggestions = ss\<rparr>)"
  by (simp add: okIfReturned_def validMatchesErrors_def)

lemma okr_Inl: "okIfReturned (Inl e)"
  by (simp add: okIfReturned_def)

lemma okr_D: "okIfReturned x \<Longrightarrow> x = Inr r \<Longrightarrow> validMatchesErrors r"
  by (simp add: okIfReturned_def)

lemma validateSkill_okr: "okIfReturned (validateSkill m c)"
  unfolding validateSkill_def by (intro okr_Let okr_If okr_Inr okr_Inl)

lemma validateSubAgent_okr: "okIfReturned (validateSubAgent m c)"
proof -
  obtain e3 w2 s2 where f: "subAgentFindings m c = (e3, w2, s2)"
    by (metis prod_cases3)
  show ?thesis
    unfolding validateSubAgent_def f prod.case by (intro okr_Let okr_If okr_Inr okr_Inl)
qed

lemma validateCommand_okr: "okIfReturned (validateCommand m c)"
  unfolding validateCommand_def by (intro okr_Let okr_If okr_Inr okr_Inl)

lemma validateRule_okr: "okIfReturned (validateRule m c)"
  unfolding validateRule_def by (intro okr_Let okr_If okr_Inr okr_Inl)

lemma route_okr: "okIfReturned (routeToSpecificValidator t m c)"
  unfolding routeToSpecificValidator_def
  by (intro okr_If validateSkill_okr validateSubAgent_okr validateCommand_okr validateRule_okr)
     (simp add: okIfReturned_def validMatchesErrors_def)

lemma validMatchesErrors_warnings: "validMatchesErrors (r\<lparr>warnings := w\<rparr>) = validMatchesErrors r"
  by (simp add: validMatchesErrors_def)

lemma validateAnyAbstraction_okr: "okIfReturned (validateAnyAbstraction md ct)"
proof (cases md)
  case (Defined m)
  show ?thesis
  proof (cases ct)
    case (Defined c)
    have "okIfReturned (validateAnyAbstraction (Defined m) (Defined c))"
      unfolding validateAnyAbstraction_def nullable.case
    proof (intro okr_Let)
      fix t
      show "okIfReturned
          (case routeToSpecificValidator t m c of
             Inl e \<Rightarrow> Inl e
           | Inr result \<Rightarrow>
               if truthy (type_m m)
               then (let typeInfo = detectAbstractionType (m\<lparr>type_m := None\<rparr>) c
                     in if ati_type typeInfo \<noteq> the (type_m m) \<and> ati_confidence typeInfo > dbl 0.7
                        then Inr (result\<lparr>warnings := warnings result @
                               [mkWarning ''ABSTRACTION_TYPE_MISMATCH''
                                  (''Content suggests \"'' @ ati_type typeInfo @
                                   ''\" but metadata specifies \"'' @ the (type_m m) @
                                   ''\". Consider reviewing the type or content.'')
                                  (Some ''type'')]\<rparr>)
                        else Inr result)
               else Inr result)"
      proof (cases "routeToSpecificValidator t m c")
        case (Inl e)
        then show ?thesis by (simp add: okr_Inl)
      next
        case (Inr result)
        have "validMatchesErrors result" using route_okr[of t m c] Inr by (simp add: okIfReturned_def)
        then show ?thesis
          unfolding Inr sum.case
          by (intro okr_If okr_Let) (simp_all add: okIfReturned_def validMatchesErrors_warnings)
      qed
    qed
    then show ?thesis using \<open>md = Defined m\<close> Defined by simp
  qed (simp_all add: Defined validateAnyAbstraction_def okIfReturned_def validMatchesErrors_def)
qed (simp_all add: validateAnyAbstraction_def okIfReturned_def validMatchesErrors_def)

lemma validateAbstractionGroup_validMatchesErrors: "validMatchesErrors (validateAbstractionGroup ds)"
  unfolding validateAbstractionGroup_def
  by (cases "foldl indexStep ([], [], []) ds") (simp add: validMatchesErrors_def Let_def)

lemma combineStep_validMatchesErrors:
  "validMatchesErrors a \<Longrightarrow> validMatchesErrors b \<Longrightarrow> validMatchesErrors (combineStep a b)"
  by (auto simp: validMatchesErrors_def combineStep_def)

lemma foldl_combineStep_validMatchesErrors:
  "validMatchesErrors a \<Longrightarrow> list_all validMatchesErrors rs \<Longrightarrow> validMatchesErrors (foldl combineStep a rs)"
  by (induction rs arbitrary: a) (simp_all add: combineStep_validMatchesErrors)

lemma combine_validMatchesErrors:
  "list_all validMatchesErrors rs \<Longrightarrow> validMatchesErrors (combineValidationResults rs)"
  unfolding combineValidationResults_def
  by (rule foldl_combineStep_validMatchesErrors) (simp_all add: validMatchesErrors_def)

lemma ret_Let: "(\<And>x. returned (f x)) \<Longrightarrow> returned (Let a f)"
  by (simp add: Let_def)

lemma ret_IfT: "c \<Longrightarrow> returned a \<Longrightarrow> returned (if c then a else b)"
  by simp

lemma ret_IfF: "\<not> c \<Longrightarrow> returned b \<Longrightarrow> returned (if c then a else b)"
  by simp

lemma ret_Inr: "returned (Inr r)"
  by (simp add: returned_def)

lemma ret_D: "returned x \<Longrightarrow> \<exists>r. x = Inr r"
  by (cases x) (simp_all add: returned_def)

lemma validateSkill_returns: "returned (validateSkill m c)"
  unfolding validateSkill_def by (intro ret_Let ret_Inr)

lemma validateRule_returns: "returned (validateRule m c)"
  unfolding validateRule_def by (intro ret_Let ret_Inr)

lemma validateSubAgent_returns:
  assumes "case tools m of Some ts \<Rightarrow> length ts > 5 | None \<Rightarrow> False"
  shows "returned (validateSubAgent m c)"
proof -
  obtain e3 w2 s2 where f: "subAgentFindings m c = (e3, w2, s2)"
    by (metis prod_cases3)
  show ?thesis
    unfolding validateSubAgent_def f prod.case by (intro ret_Let ret_IfT ret_Inr assms)
qed

lemma validateCommand_returns:
  assumes "\<not> (truthy (trigger m) \<and> startsWith (the (trigger m)) ''/'')"
  shows "returned (validateCommand m c)"
  unfolding validateCommand_def by (intro ret_IfF ret_Let ret_Inr assms)

lemma validateAnyAbstraction_rule_returns:
  assumes "type_m m = Some ''rule''"
  shows "returned (validateAnyAbstraction (Defined m) (Defined c))"
proof -
  obtain r where r: "validateRule m c = Inr r"
    using ret_D[OF validateRule_returns] by blast
  have t: "truthy (type_m m)" "the (type_m m) = ''rule''" using assms by simp_all
  have "routeToSpecificValidator ''rule'' m c = Inr r"
    by (simp add: routeToSpecificValidator_def r)
  then show ?thesis
    by (simp add: validateAnyAbstraction_def t Let_def returned_def)
qed

text \<open>
  What the dispatcher returns is what the category validator it calls returns, with at
  most one warning appended to \<open>warnings\<close>.
\<close>

lemma validateAnyAbstraction_warnings_only:
  assumes "routeToSpecificValidator
      (if truthy (type_m m) then the (type_m m) else ati_type (detectAbstractionType m c))
      m c = Inr r0"
  shows "\<exists>ws. validateAnyAbstraction (Defined m) (Defined c) =
            Inr (r0\<lparr>warnings := warnings r0 @ ws\<rparr>) \<and>
          length ws \<le> 1 \<and> list_all (\<lambda>w. code w = ''ABSTRACTION_TYPE_MISMATCH'') ws"
proof (cases "truthy (type_m m) \<and>
    ati_type (detectAbstractionType (m\<lparr>type_m := None\<rparr>) c) \<noteq> the (type_m m) \<and>
    ati_confidence (detectAbstractionType (m\<lparr>type_m := None\<rparr>) c) > dbl 0.7")
  case True
  define w where "w = mkWarning ''ABSTRACTION_TYPE_MISMATCH''
      (''Content suggests \"'' @ ati_type (detectAbstractionType (m\<lparr>type_m := None\<rparr>) c) @
       ''\" but metadata specifies \"'' @ the (type_m m) @
       ''\". Consider reviewing the type or content.'')
      (Some ''type'')"
  have "validateAnyAbstraction (Defined m) (Defined c) = Inr (r0\<lparr>warnings := warnings r0 @ [w]\<rparr>)"
    using True assms by (simp add: validateAnyAbstraction_def Let_def w_def)
  moreover have "code w = ''ABSTRACTION_TYPE_MISMATCH''"
    by (simp add: w_def mkWarning_def)
  ultimately show ?thesis
    by (intro exI[of _ "[w]"]) simp
next
  case False
  have "validateAnyAbstraction (Defined m) (Defined c) = Inr r0"
  proof (cases "truthy (type_m m)")
    case True
    then show ?thesis
      using False assms by (auto simp: validateAnyAbstraction_def Let_def)
  next
    case no: False
    then show ?thesis
      using assms by (simp add: validateAnyAbstraction_def Let_def)
  qed
  then show ?thesis
    by (intro exI[of _ "[]"]) simp
qed

lemma dispatcher_routes_to_validateRule:
  "validateAnyAbstraction (Defined (bareMetadata ''x'')) (Defined ''step 2 must must must'') =
   validateRule (bareMetadata ''x'') ''step 2 must must must''"
proof -
  obtain r where r: "validateRule (bareMetadata ''x'') ''step 2 must must must'' = Inr r"
    using ret_D[OF validateRule_returns] by blast
  show ?thesis
    by (simp add: validateAnyAbstraction_def rule_wins_by_rounding routeToSpecificValidator_def r)
qed

text \<open>
  C2.  Every result that a category validator or the dispatcher returns has \<open>valid\<close>
  exactly when it has no error, and so has every result of the group validator.  The
  dispatcher returns whenever the category validator it calls returns, and its result is
  that validator's result with at most one \<open>ABSTRACTION_TYPE_MISMATCH\<close> warning appended
  to \<open>warnings\<close>: \<open>valid\<close>, \<open>errors\<close> and \<open>suggestions\<close> are those of the validator.
  \<open>combineValidationResults\<close> returns a result with the property for every list of
  results that have it, which is the invariant of a \<open>ValidationResult\<close>.
\<close>

theorem C2_valid_iff_no_errors:
  "(\<forall>m c r. validateSkill m c = Inr r \<longrightarrow> validMatchesErrors r) \<and>
   (\<forall>m c r. validateSubAgent m c = Inr r \<longrightarrow> validMatchesErrors r) \<and>
   (\<forall>m c r. validateCommand m c = Inr r \<longrightarrow> validMatchesErrors r) \<and>
   (\<forall>m c r. validateRule m c = Inr r \<longrightarrow> validMatchesErrors r) \<and>
   (\<forall>md ct r. validateAnyAbstraction md ct = Inr r \<longrightarrow> validMatchesErrors r) \<and>
   (\<forall>m c r0.
      routeToSpecificValidator
        (if truthy (type_m m) then the (type_m m) else ati_type (detectAbstractionType m c))
        m c = Inr r0 \<longrightarrow>
      (\<exists>ws. validateAnyAbstraction (Defined m) (Defined c) =
              Inr (r0\<lparr>warnings := warnings r0 @ ws\<rparr>) \<and>
            length ws \<le> 1 \<and> list_all (\<lambda>w. code w = ''ABSTRACTION_TYPE_MISMATCH'') ws \<and>
            valid (r0\<lparr>warnings := warnings r0 @ ws\<rparr>) = valid r0 \<and>
            errors (r0\<lparr>warnings := warnings r0 @ ws\<rparr>) = errors r0)) \<and>
   (\<forall>ds. validMatchesErrors (validateAbstractionGroup ds)) \<and>
   (\<forall>rs. list_all validMatchesErrors rs \<longrightarrow> validMatchesErrors (combineValidationResults rs))"
proof -
  have w: "\<forall>m c r0.
      routeToSpecificValidator
        (if truthy (type_m m) then the (type_m m) else ati_type (detectAbstractionType m c))
        m c = Inr r0 \<longrightarrow>
      (\<exists>ws. validateAnyAbstraction (Defined m) (Defined c) =
              Inr (r0\<lparr>warnings := warnings r0 @ ws\<rparr>) \<and>
            length ws \<le> 1 \<and> list_all (\<lambda>w. code w = ''ABSTRACTION_TYPE_MISMATCH'') ws \<and>
            valid (r0\<lparr>warnings := warnings r0 @ ws\<rparr>) = valid r0 \<and>
            errors (r0\<lparr>warnings := warnings r0 @ ws\<rparr>) = errors r0)"
  proof (intro allI impI)
    fix m c r0
    assume "routeToSpecificValidator
        (if truthy (type_m m) then the (type_m m) else ati_type (detectAbstractionType m c))
        m c = Inr r0"
    from validateAnyAbstraction_warnings_only[OF this]
    obtain ws where "validateAnyAbstraction (Defined m) (Defined c) =
          Inr (r0\<lparr>warnings := warnings r0 @ ws\<rparr>)" "length ws \<le> 1"
        "list_all (\<lambda>w. code w = ''ABSTRACTION_TYPE_MISMATCH'') ws"
      by blast
    then show "\<exists>ws. validateAnyAbstraction (Defined m) (Defined c) =
              Inr (r0\<lparr>warnings := warnings r0 @ ws\<rparr>) \<and>
            length ws \<le> 1 \<and> list_all (\<lambda>w. code w = ''ABSTRACTION_TYPE_MISMATCH'') ws \<and>
            valid (r0\<lparr>warnings := warnings r0 @ ws\<rparr>) = valid r0 \<and>
            errors (r0\<lparr>warnings := warnings r0 @ ws\<rparr>) = errors r0"
      by (intro exI[of _ ws]) simp
  qed
  show ?thesis
    using okr_D[OF validateSkill_okr] okr_D[OF validateSubAgent_okr] okr_D[OF validateCommand_okr]
      okr_D[OF validateRule_okr] okr_D[OF validateAnyAbstraction_okr]
      validateAbstractionGroup_validMatchesErrors combine_validMatchesErrors
    by (intro conjI w) blast+
qed

text \<open>
  A rule whose content reads like a skill: the classifier answers \<open>skill\<close> with
  confidence 1, and the dispatcher appends the warning to the result of \<open>validateRule\<close>.
\<close>

lemma approach_is_skill:
  "ati_type (detectAbstractionType (explicitRule\<lparr>type_m := None\<rparr>) ''approach'') = ''skill'' \<and>
   ati_confidence (detectAbstractionType (explicitRule\<lparr>type_m := None\<rparr>) ''approach'') = 1"
  by code_simp

lemma dispatcher_appends_mismatch:
  assumes "validateRule explicitRule ''approach'' = Inr r0"
  shows "validateAnyAbstraction (Defined explicitRule) (Defined ''approach'') =
     Inr (r0\<lparr>warnings := warnings r0 @
        [mkWarning ''ABSTRACTION_TYPE_MISMATCH''
           ''Content suggests \"skill\" but metadata specifies \"rule\". Consider reviewing the type or content.''
           (Some ''type'')]\<rparr>)"
proof -
  have t: "truthy (type_m explicitRule)" "the (type_m explicitRule) = ''rule''"
    by (simp_all add: explicitRule_def)
  have "routeToSpecificValidator ''rule'' explicitRule ''approach'' = Inr r0"
    by (simp add: routeToSpecificValidator_def assms)
  then show ?thesis
    by (simp add: validateAnyAbstraction_def t Let_def approach_is_skill dbl_07)
qed

theorem C2_valid_iff_no_errors_witness:
  "(\<exists>r. validateSkill (bareMetadata ''s'') ''how to'' = Inr r \<and> validMatchesErrors r) \<and>
   (\<exists>r. validateSubAgent manyToolsSubagent ''first'' = Inr r \<and> validMatchesErrors r) \<and>
   (\<exists>r. validateCommand (bareMetadata ''c'') ''run'' = Inr r \<and> validMatchesErrors r) \<and>
   (\<exists>r. validateRule (bareMetadata ''r'') ''must'' = Inr r \<and> validMatchesErrors r) \<and>
   (\<exists>r0 r. validateRule explicitRule ''approach'' = Inr r0 \<and>
        validateAnyAbstraction (Defined explicitRule) (Defined ''approach'') = Inr r \<and>
        r = r0\<lparr>warnings := warnings r0 @
              [mkWarning ''ABSTRACTION_TYPE_MISMATCH''
                 ''Content suggests \"skill\" but metadata specifies \"rule\". Consider reviewing the type or content.''
                 (Some ''type'')]\<rparr> \<and>
        valid r = valid r0 \<and> errors r = errors r0 \<and> validMatchesErrors r) \<and>
   validMatchesErrors (validateAbstractionGroup []) \<and>
   list_all validMatchesErrors
     [\<lparr>valid = True, errors = [], warnings = [], suggestions = []\<rparr>,
      \<lparr>valid = False, errors = [mkError ''UNKNOWN_TYPE'' ''Unknown abstraction type: x'' (Some ''type'')],
       warnings = [], suggestions = []\<rparr>] \<and>
   validMatchesErrors
     (combineValidationResults
        [\<lparr>valid = True, errors = [], warnings = [], suggestions = []\<rparr>,
         \<lparr>valid = False, errors = [mkError ''UNKNOWN_TYPE'' ''Unknown abstraction type: x'' (Some ''type'')],
          warnings = [], suggestions = []\<rparr>])"
proof -
  have a: "\<exists>r. validateSkill (bareMetadata ''s'') ''how to'' = Inr r"
    by (rule ret_D[OF validateSkill_returns])
  have b: "\<exists>r. validateSubAgent manyToolsSubagent ''first'' = Inr r"
    by (rule ret_D[OF validateSubAgent_returns]) (simp add: manyToolsSubagent_def)
  have c: "\<exists>r. validateCommand (bareMetadata ''c'') ''run'' = Inr r"
    by (rule ret_D[OF validateCommand_returns]) simp
  have d: "\<exists>r. validateRule (bareMetadata ''r'') ''must'' = Inr r"
    by (rule ret_D[OF validateRule_returns])
  obtain r0 where r0: "validateRule explicitRule ''approach'' = Inr r0"
    using ret_D[OF validateRule_returns] by blast
  have e: "\<exists>r0 r. validateRule explicitRule ''approach'' = Inr r0 \<and>
        validateAnyAbstraction (Defined explicitRule) (Defined ''approach'') = Inr r \<and>
        r = r0\<lparr>warnings := warnings r0 @
              [mkWarning ''ABSTRACTION_TYPE_MISMATCH''
                 ''Content suggests \"skill\" but metadata specifies \"rule\". Consider reviewing the type or content.''
                 (Some ''type'')]\<rparr> \<and>
        valid r = valid r0 \<and> errors r = errors r0"
    using r0 dispatcher_appends_mismatch[OF r0] by simp
  have f: "list_all validMatchesErrors
     [\<lparr>valid = True, errors = [], warnings = [], suggestions = []\<rparr>,
      \<lparr>valid = False, errors = [mkError ''UNKNOWN_TYPE'' ''Unknown abstraction type: x'' (Some ''type'')],
       warnings = [], suggestions = []\<rparr>]"
    by (simp add: validMatchesErrors_def)
  have sk: "validateSkill m c = Inr r \<Longrightarrow> validMatchesErrors r" for m c r
    using C2_valid_iff_no_errors by blast
  have sa: "validateSubAgent m c = Inr r \<Longrightarrow> validMatchesErrors r" for m c r
    using C2_valid_iff_no_errors by blast
  have cm: "validateCommand m c = Inr r \<Longrightarrow> validMatchesErrors r" for m c r
    using C2_valid_iff_no_errors by blast
  have ru: "validateRule m c = Inr r \<Longrightarrow> validMatchesErrors r" for m c r
    using C2_valid_iff_no_errors by blast
  have va: "validateAnyAbstraction md ct = Inr r \<Longrightarrow> validMatchesErrors r" for md ct r
    using C2_valid_iff_no_errors by blast
  have gr: "validMatchesErrors (validateAbstractionGroup ds)" for ds
    using C2_valid_iff_no_errors by blast
  have co: "list_all validMatchesErrors rs \<Longrightarrow> validMatchesErrors (combineValidationResults rs)"
    for rs
    using C2_valid_iff_no_errors by blast
  have e': "\<exists>r0 r. validateRule explicitRule ''approach'' = Inr r0 \<and>
        validateAnyAbstraction (Defined explicitRule) (Defined ''approach'') = Inr r \<and>
        r = r0\<lparr>warnings := warnings r0 @
              [mkWarning ''ABSTRACTION_TYPE_MISMATCH''
                 ''Content suggests \"skill\" but metadata specifies \"rule\". Consider reviewing the type or content.''
                 (Some ''type'')]\<rparr> \<and>
        valid r = valid r0 \<and> errors r = errors r0 \<and> validMatchesErrors r"
    using e va by blast
  show ?thesis
    using a b c d sk sa cm ru e' gr[of "[]"] f co[OF f] by blast
qed

section \<open>Properties of the group validator\<close>

text \<open>A call that finds no cycle leaves the recursion stack as it found it.\<close>

lemma stack_restored:
  "hasCircularDependency g n s = (False, s') \<Longrightarrow> snd s' = snd s"
  "hasCircularAmong g ds s = (False, s') \<Longrightarrow> snd s' = snd s"
proof (induct g n s and g ds s arbitrary: s' and s' rule: hasCircularDependency_hasCircularAmong.induct)
  case (1 g nodeId visited recursionStack)
  show ?case
  proof (cases "nodeId \<in> recursionStack")
    case True
    then show ?thesis using 1(2) by simp
  next
    case notOnStack: False
    show ?thesis
    proof (cases "nodeId \<in> visited")
      case True
      then show ?thesis using 1(2) notOnStack by auto
    next
      case False
      obtain b v r where inner: "hasCircularAmong g (dependenciesOf g nodeId)
          (insert nodeId visited, insert nodeId recursionStack) = (b, v, r)"
        by (metis prod_cases3)
      have "\<not> b" using 1(2) notOnStack False inner by (cases b) auto
      then have "r = insert nodeId recursionStack"
        using 1(1)[OF notOnStack False, of "(v, r)"] inner by simp
      then show ?thesis using 1(2) notOnStack False inner \<open>\<not> b\<close> by auto
    qed
  qed
next
  case (2 g s)
  then show ?case by simp
next
  case (3 g depId rest s)
  obtain b s1 where first: "hasCircularDependency g depId s = (b, s1)"
    by (cases "hasCircularDependency g depId s") auto
  have nb: "\<not> b" using 3(3) first by (cases b) auto
  have "snd s1 = snd s" using 3(1)[of s1] first nb by simp
  moreover have "snd s' = snd s1"
    using 3(2)[OF first[symmetric]] 3(3) first nb by simp
  ultimately show ?case by simp
qed

text \<open>A dependency that is on the recursion stack is reported by the loop over the dependencies.\<close>

lemma on_stack_found:
  "x \<in> set ds \<Longrightarrow> x \<in> snd s \<Longrightarrow> fst (hasCircularAmong g ds s)"
proof (induction ds arbitrary: s)
  case Nil
  then show ?case by simp
next
  case (Cons d ds)
  obtain b s1 where first: "hasCircularDependency g d s = (b, s1)"
    by (cases "hasCircularDependency g d s") auto
  show ?case
  proof (cases b)
    case True
    then show ?thesis using first by simp
  next
    case False
    have st: "snd s1 = snd s" using stack_restored(1)[of g d s s1] first False by simp
    have "x \<noteq> d"
    proof
      assume "x = d"
      then have "fst (hasCircularDependency g d s)" using Cons.prems(2) by (cases s) simp
      then show False using first False by simp
    qed
    then have "x \<in> set ds" using Cons.prems(1) by simp
    then have "fst (hasCircularAmong g ds s1)" using Cons.IH[of s1] Cons.prems(2) st by simp
    then show ?thesis using first False by simp
  qed
qed

lemma cycle_below:
  "fst x \<Longrightarrow> fst (case x of (True, s) \<Rightarrow> (True, s) | (False, v, r) \<Rightarrow> (False, v, r - {n}))"
  by (cases x; cases "fst x") auto

lemma cycle_first:
  "fst x \<Longrightarrow> fst (case x of (True, s') \<Rightarrow> (True, s') | (False, s') \<Rightarrow> f s')"
  by (cases x; cases "fst x") auto

lemma self_cycle_found:
  assumes "x \<in> set (dependenciesOf g x)"
  shows "fst (hasCircularDependency g x ({}, {}))"
proof -
  have "fst (hasCircularAmong g (dependenciesOf g x) ({x}, {x}))"
    by (rule on_stack_found[OF assms]) simp
  then show ?thesis by (simp add: cycle_below)
qed

lemma leaf_visit:
  assumes "dependenciesOf g d = []" "d \<notin> r"
  shows "hasCircularDependency g d (v, r) = (False, insert d v, r)"
  using assms by (auto simp: insert_absorb)

lemma two_cycle_among:
  assumes g: "dependenciesOf g b = db" "a \<in> set db"
    and leaves: "\<And>d. d \<noteq> a \<Longrightarrow> d \<noteq> b \<Longrightarrow> dependenciesOf g d = []"
  shows "b \<in> set ds \<Longrightarrow> a \<in> r \<Longrightarrow> b \<notin> v \<Longrightarrow> fst (hasCircularAmong g ds (v, r))"
proof (induction ds arbitrary: v)
  case Nil
  then show ?case by simp
next
  case (Cons d ds)
  show ?case
  proof (cases "d \<in> r")
    case True
    then show ?thesis by simp
  next
    case notOnStack: False
    then have da: "d \<noteq> a" using Cons.prems(2) by auto
    show ?thesis
    proof (cases "d = b")
      case True
      have "fst (hasCircularAmong g db (insert b v, insert b r))"
        by (rule on_stack_found[OF g(2)]) (simp add: Cons.prems(2))
      then have "fst (hasCircularDependency g b (v, r))"
        using notOnStack True Cons.prems(3) g(1) by (simp add: cycle_below)
      then show ?thesis using True by (simp add: cycle_first)
    next
      case False
      have step: "hasCircularDependency g d (v, r) = (False, insert d v, r)"
        by (rule leaf_visit[OF leaves[OF da False] notOnStack])
      have "b \<in> set ds" using Cons.prems(1) False by auto
      moreover have "b \<notin> insert d v" using Cons.prems(3) False by auto
      ultimately have "fst (hasCircularAmong g ds (insert d v, r))"
        using Cons.IH[of "insert d v"] Cons.prems(2) by simp
      then show ?thesis using step by simp
    qed
  qed
qed

lemma two_cycle_found:
  assumes "a \<noteq> b" "b \<in> set da" "a \<in> set db"
  shows "fst (hasCircularDependency [(a, da), (b, db)] a ({}, {}))"
proof -
  let ?g = "[(a, da), (b, db)]"
  have "fst (hasCircularAmong ?g da ({a}, {a}))"
  proof (rule two_cycle_among[where a = a and b = b and db = db])
    show "dependenciesOf ?g b = db" using assms(1) by (simp add: dependenciesOf_def)
    show "a \<in> set db" by (rule assms(3))
    show "\<And>d. d \<noteq> a \<Longrightarrow> d \<noteq> b \<Longrightarrow> dependenciesOf ?g d = []"
      by (simp add: dependenciesOf_def)
    show "b \<in> set da" by (rule assms(2))
    show "a \<in> {a}" by simp
    show "b \<notin> {a}" using assms(1) by simp
  qed
  moreover have "dependenciesOf ?g a = da" by (simp add: dependenciesOf_def)
  ultimately show ?thesis by (simp add: cycle_below)
qed

text \<open>The indexes that the first loop builds.\<close>

lemma indexStep_graph:
  "snd (snd (indexStep (es, ct, dg) x)) =
     (case dependencies (fst x) of Some ds \<Rightarrow> mapSet (id_m (fst x)) ds dg | None \<Rightarrow> dg)"
  by (simp add: indexStep_def Let_def)

lemma indexStep_errors:
  "\<exists>new. fst (indexStep (es, ct, dg) x) = es @ new \<and>
         list_all (\<lambda>e. code e = ''COMMAND_TRIGGER_CONFLICT'') new"
  by (simp add: indexStep_def Let_def mkError_def)

lemma foldl_indexStep_errors:
  "\<exists>new. fst (foldl indexStep (es, ct, dg) xs) = es @ new \<and>
         list_all (\<lambda>e. code e = ''COMMAND_TRIGGER_CONFLICT'') new"
proof (induction xs arbitrary: es ct dg)
  case Nil
  then show ?case by simp
next
  case (Cons x xs)
  obtain es1 ct1 dg1 where st: "indexStep (es, ct, dg) x = (es1, ct1, dg1)"
    by (metis prod_cases3)
  obtain n1 where n1: "es1 = es @ n1" "list_all (\<lambda>e. code e = ''COMMAND_TRIGGER_CONFLICT'') n1"
    using indexStep_errors[of es ct dg x] st by auto
  obtain n2 where n2: "fst (foldl indexStep (es1, ct1, dg1) xs) = es1 @ n2"
      "list_all (\<lambda>e. code e = ''COMMAND_TRIGGER_CONFLICT'') n2"
    using Cons.IH[of es1 ct1 dg1] by auto
  show ?case
    by (rule exI[of _ "n1 @ n2"]) (use st n1 n2 in auto)
qed

lemma invalidDependencyErrors_codes:
  "list_all (\<lambda>e. code e = ''INVALID_DEPENDENCY'') (invalidDependencyErrors ids dg)"
  by (induction dg) (auto simp: invalidDependencyErrors_def mkError_def Let_def)

lemma filter_other_code:
  "list_all (\<lambda>e. code e = c') es \<Longrightarrow> c' \<noteq> c \<Longrightarrow> filter (\<lambda>e. code e = c) es = []"
  by (induction es) auto

lemma group_errors_shape:
  "\<exists>e1 dg. foldl indexStep ([], [], []) ds = (e1, snd (foldl indexStep ([], [], []) ds)) \<and>
      list_all (\<lambda>e. code e = ''COMMAND_TRIGGER_CONFLICT'') e1 \<and>
      dg = snd (snd (foldl indexStep ([], [], []) ds)) \<and>
      errors (validateAbstractionGroup ds) =
        e1 @ (case findCycle dg (map fst dg) ({}, {}) of
                Some nodeId \<Rightarrow> [mkError ''CIRCULAR_DEPENDENCY''
                    (''Circular dependency detected involving \"'' @ nodeId @ ''\"'')
                    (Some ''dependencies'')]
              | None \<Rightarrow> []) @
        invalidDependencyErrors (set (map (\<lambda>a. id_m (fst a)) ds)) dg"
proof -
  obtain e1 ct dg where st: "foldl indexStep ([], [], []) ds = (e1, ct, dg)"
    by (metis prod_cases3)
  have "list_all (\<lambda>e. code e = ''COMMAND_TRIGGER_CONFLICT'') e1"
    using foldl_indexStep_errors[of "[]" "[]" "[]" ds] st by simp
  then show ?thesis
    by (simp add: st validateAbstractionGroup_def Let_def split: option.splits)
qed

lemma circularErrors_eq:
  "circularErrors (validateAbstractionGroup ds) =
     (let dg = snd (snd (foldl indexStep ([], [], []) ds))
      in case findCycle dg (map fst dg) ({}, {}) of
           Some nodeId \<Rightarrow> [mkError ''CIRCULAR_DEPENDENCY''
               (''Circular dependency detected involving \"'' @ nodeId @ ''\"'')
               (Some ''dependencies'')]
         | None \<Rightarrow> [])"
proof -
  obtain e1 dg where s: "list_all (\<lambda>e. code e = ''COMMAND_TRIGGER_CONFLICT'') e1"
      "dg = snd (snd (foldl indexStep ([], [], []) ds))"
      "errors (validateAbstractionGroup ds) =
        e1 @ (case findCycle dg (map fst dg) ({}, {}) of
                Some nodeId \<Rightarrow> [mkError ''CIRCULAR_DEPENDENCY''
                    (''Circular dependency detected involving \"'' @ nodeId @ ''\"'')
                    (Some ''dependencies'')]
              | None \<Rightarrow> []) @
        invalidDependencyErrors (set (map (\<lambda>a. id_m (fst a)) ds)) dg"
    using group_errors_shape[of ds] by blast
  have a: "filter (\<lambda>e. code e = ''CIRCULAR_DEPENDENCY'') e1 = []"
    by (rule filter_other_code[OF s(1)]) simp
  have b: "\<And>ids. filter (\<lambda>e. code e = ''CIRCULAR_DEPENDENCY'')
       (invalidDependencyErrors ids dg) = []"
    by (rule filter_other_code[OF invalidDependencyErrors_codes]) simp
  show ?thesis
    unfolding circularErrors_def s(3) Let_def s(2)[symmetric]
    by (simp add: a b mkError_def split: option.splits)
qed

lemma at_most_one_circular: "length (circularErrors (validateAbstractionGroup ds)) \<le> 1"
  by (simp add: circularErrors_eq Let_def split: option.splits)

text \<open>
  C6.  For a batch of two documents, the dependencies of the first containing the id of the
  second and the dependencies of the second containing the id of the first, the group
  validator reports exactly one \<open>CIRCULAR_DEPENDENCY\<close> error; and for every batch it
  reports at most one.
\<close>

theorem C6_one_circular_dependency_error:
  assumes "dependencies a = Some da" "dependencies b = Some db"
    and "id_m b \<in> set da" "id_m a \<in> set db"
  shows "length (circularErrors (validateAbstractionGroup [(a, ca), (b, cb)])) = 1 \<and>
         (\<forall>ds. length (circularErrors (validateAbstractionGroup ds)) \<le> 1)"
proof -
  let ?dg = "snd (snd (foldl indexStep ([], [], []) [(a, ca), (b, cb)]))"
  have dg: "?dg = mapSet (id_m b) db [(id_m a, da)]"
  proof -
    obtain e1 ct1 dg1 where st: "indexStep ([], [], []) (a, ca) = (e1, ct1, dg1)"
      by (metis prod_cases3)
    have "dg1 = [(id_m a, da)]"
      using indexStep_graph[of "[]" "[]" "[]" "(a, ca)"] st assms(1) by simp
    then show ?thesis
      using indexStep_graph[of e1 ct1 dg1 "(b, cb)"] st assms(2) by simp
  qed
  have "\<exists>n. findCycle ?dg (map fst ?dg) ({}, {}) = Some n"
  proof (cases "id_m a = id_m b")
    case True
    then have g: "?dg = [(id_m a, db)]" using dg by simp
    have "fst (hasCircularDependency [(id_m a, db)] (id_m a) ({}, {}))"
      by (rule self_cycle_found) (simp add: dependenciesOf_def assms(4))
    then show ?thesis unfolding g by (cases "hasCircularDependency [(id_m a, db)] (id_m a) ({}, {})") auto
  next
    case False
    then have g: "?dg = [(id_m a, da), (id_m b, db)]" using dg by simp
    have "fst (hasCircularDependency [(id_m a, da), (id_m b, db)] (id_m a) ({}, {}))"
      by (rule two_cycle_found[OF False assms(3,4)])
    then show ?thesis unfolding g
      by (cases "hasCircularDependency [(id_m a, da), (id_m b, db)] (id_m a) ({}, {})") auto
  qed
  then have "length (circularErrors (validateAbstractionGroup [(a, ca), (b, cb)])) = 1"
    unfolding circularErrors_eq Let_def by auto
  then show ?thesis using at_most_one_circular by blast
qed

theorem C6_one_circular_dependency_error_witness:
  "dependencies cycleA = Some [''skill-2''] \<and> dependencies cycleB = Some [''skill-1''] \<and>
   id_m cycleB \<in> set [''skill-2''] \<and> id_m cycleA \<in> set [''skill-1''] \<and>
   length (circularErrors (validateAbstractionGroup [(cycleA, ''Skill 1''), (cycleB, ''Skill 2'')])) = 1"
proof -
  have h: "dependencies cycleA = Some [''skill-2'']" "dependencies cycleB = Some [''skill-1'']"
    "id_m cycleB \<in> set [''skill-2'']" "id_m cycleA \<in> set [''skill-1'']"
    by (simp_all add: cycleA_def cycleB_def)
  show ?thesis
    using C6_one_circular_dependency_error[OF h, of "''Skill 1''" "''Skill 2''"] h by simp
qed

lemma triggerConflicts_eq:
  "triggerConflicts (validateAbstractionGroup ds) = fst (foldl indexStep ([], [], []) ds)"
proof -
  obtain e1 dg where s: "list_all (\<lambda>e. code e = ''COMMAND_TRIGGER_CONFLICT'') e1"
      "foldl indexStep ([], [], []) ds = (e1, snd (foldl indexStep ([], [], []) ds))"
      "errors (validateAbstractionGroup ds) =
        e1 @ (case findCycle dg (map fst dg) ({}, {}) of
                Some nodeId \<Rightarrow> [mkError ''CIRCULAR_DEPENDENCY''
                    (''Circular dependency detected involving \"'' @ nodeId @ ''\"'')
                    (Some ''dependencies'')]
              | None \<Rightarrow> []) @
        invalidDependencyErrors (set (map (\<lambda>a. id_m (fst a)) ds)) dg"
    using group_errors_shape[of ds] by blast
  have a: "filter (\<lambda>e. code e = ''COMMAND_TRIGGER_CONFLICT'') e1 = e1"
    using s(1) by (induction e1) auto
  have b: "\<And>ids. filter (\<lambda>e. code e = ''COMMAND_TRIGGER_CONFLICT'')
       (invalidDependencyErrors ids dg) = []"
    by (rule filter_other_code[OF invalidDependencyErrors_codes]) simp
  have c: "fst (foldl indexStep ([], [], []) ds) = e1"
    using s(2) by (metis fst_conv)
  show ?thesis
    unfolding triggerConflicts_def s(3) c
    by (simp add: a b mkError_def split: option.splits)
qed

lemma indexStep_first_command:
  assumes "type_m a = Some ''command''" "trigger a = Some t" "t \<noteq> []"
  shows "\<exists>dg. indexStep ([], [], []) (a, ca) = ([], [(t, id_m a)], dg)"
  using assms by (simp add: indexStep_def Let_def)

lemma indexStep_second_command:
  assumes "type_m b = Some ''command''" "trigger b = Some t" "t \<noteq> []" "i \<noteq> []"
  shows "fst (indexStep ([], [(t, i)], dg) (b, cb)) =
     [mkError ''COMMAND_TRIGGER_CONFLICT''
        (''Trigger \"'' @ t @ ''\" conflicts with command \"'' @ i @ ''\"'') (Some ''trigger'')]"
  using assms by (simp add: indexStep_def Let_def)

text \<open>
  C7, as amended.  For a batch of two commands that declare the same non-empty trigger,
  the first of them with a non-empty id, the group validator reports exactly one
  \<open>COMMAND_TRIGGER_CONFLICT\<close> error, with field \<open>trigger\<close>; its message is made of the
  trigger and the id of the first command, and of nothing else of the batch.
\<close>

theorem C7_one_trigger_conflict:
  assumes "type_m a = Some ''command''" "type_m b = Some ''command''"
    and "trigger a = Some t" "trigger b = Some t"
    and "t \<noteq> []" "id_m a \<noteq> []"
  shows "triggerConflicts (validateAbstractionGroup [(a, ca), (b, cb)]) =
     [mkError ''COMMAND_TRIGGER_CONFLICT''
        (''Trigger \"'' @ t @ ''\" conflicts with command \"'' @ id_m a @ ''\"'') (Some ''trigger'')]"
proof -
  obtain dg where first: "indexStep ([], [], []) (a, ca) = ([], [(t, id_m a)], dg)"
    using indexStep_first_command[OF assms(1,3,5)] by blast
  show ?thesis
    unfolding triggerConflicts_eq
    by (simp add: first indexStep_second_command[OF assms(2,4,5,6)])
qed

theorem C7_one_trigger_conflict_witness:
  "type_m buildCommand = Some ''command'' \<and> type_m buildCommand2 = Some ''command'' \<and>
   trigger buildCommand = Some ''/build'' \<and> trigger buildCommand2 = Some ''/build'' \<and>
   ''/build'' \<noteq> [] \<and> id_m buildCommand \<noteq> [] \<and>
   triggerConflicts (validateAbstractionGroup
       [(buildCommand, ''Execute build process''), (buildCommand2, ''Another build command'')]) =
     [mkError ''COMMAND_TRIGGER_CONFLICT''
        ''Trigger \"/build\" conflicts with command \"command-1\"'' (Some ''trigger'')]"
proof -
  have h: "type_m buildCommand = Some ''command''" "type_m buildCommand2 = Some ''command''"
    "trigger buildCommand = Some ''/build''" "trigger buildCommand2 = Some ''/build''"
    "''/build'' \<noteq> []" "id_m buildCommand \<noteq> []"
    by (simp_all add: buildCommand_def buildCommand2_def)
  have i: "id_m buildCommand = ''command-1''" by (simp add: buildCommand_def)
  show ?thesis
    using C7_one_trigger_conflict[OF h, of "''Execute build process''" "''Another build command''"] h
    by (simp add: i)
qed

text \<open>
  C7 as stated fails.  On the two \<open>/build\<close> commands \<open>command-1\<close> and \<open>command-2\<close> the
  message of the error names \<open>command-1\<close> and does not contain \<open>command-2\<close>.  And no
  conflict is reported when the common trigger is the empty string, or when the id of
  the first command is.
\<close>

theorem C7_second_id_not_named:
  "map message (triggerConflicts (validateAbstractionGroup
       [(buildCommand, ''Execute build process''), (buildCommand2, ''Another build command'')])) =
     [''Trigger \"/build\" conflicts with command \"command-1\"''] \<and>
   \<not> includesStr ''Trigger \"/build\" conflicts with command \"command-1\"'' (id_m buildCommand2) \<and>
   triggerConflicts (validateAbstractionGroup
       [(emptyTriggerCommand ''command-1'', ''Execute build process''),
        (emptyTriggerCommand ''command-2'', ''Another build command'')]) = [] \<and>
   triggerConflicts (validateAbstractionGroup
       [(namelessBuildCommand, ''Execute build process''),
        (buildCommand2, ''Another build command'')]) = []"
proof -
  have a: "map message (triggerConflicts (validateAbstractionGroup
       [(buildCommand, ''Execute build process''), (buildCommand2, ''Another build command'')])) =
     [''Trigger \"/build\" conflicts with command \"command-1\"'']"
    unfolding triggerConflicts_eq
    by (simp add: indexStep_def buildCommand_def buildCommand2_def mkError_def)
  have b: "\<not> includesStr ''Trigger \"/build\" conflicts with command \"command-1\"'' (id_m buildCommand2)"
    by (simp add: buildCommand2_def)
  have c: "triggerConflicts (validateAbstractionGroup
       [(emptyTriggerCommand ''command-1'', ''Execute build process''),
        (emptyTriggerCommand ''command-2'', ''Another build command'')]) = []"
    unfolding triggerConflicts_eq by (simp add: indexStep_def emptyTriggerCommand_def)
  have d: "triggerConflicts (validateAbstractionGroup
       [(namelessBuildCommand, ''Execute build process''),
        (buildCommand2, ''Another build command'')]) = []"
    unfolding triggerConflicts_eq
    by (simp add: indexStep_def namelessBuildCommand_def buildCommand2_def)
  show ?thesis using a b c d by simp
qed

section \<open>Frame properties on the store\<close>

lemma extends_refl: "extends h h"
  by (simp add: extends_def)

lemma extends_length: "extends h0 h \<Longrightarrow> length h0 \<le> length h"
proof -
  assume "extends h0 h"
  then have "length (take (length h0) h) = length h0" by (simp add: extends_def)
  then show ?thesis by simp
qed

lemma extends_trans: "extends h0 h1 \<Longrightarrow> extends h1 h2 \<Longrightarrow> extends h0 h2"
proof -
  assume a: "extends h0 h1" and b: "extends h1 h2"
  have "take (length h0) h2 = take (length h0) (take (length h1) h2)"
    using extends_length[OF a] by (simp add: min_def)
  also have "\<dots> = take (length h0) h1" using b by (simp add: extends_def)
  also have "\<dots> = h0" using a by (simp add: extends_def)
  finally show ?thesis by (simp add: extends_def)
qed

lemma extends_alloc: "extends h (fst (alloc h ob))"
  by (simp add: extends_def alloc_def)

lemma extends_store: "length h0 \<le> a \<Longrightarrow> extends h0 h \<Longrightarrow> extends h0 (store h a ob)"
  by (simp add: extends_def store_def)

lemma extends_lookup: "extends h0 h \<Longrightarrow> a < length h0 \<Longrightarrow> lookup h a = lookup h0 a"
proof -
  assume e: "extends h0 h" and a: "a < length h0"
  have "h ! a = take (length h0) h ! a" using a by simp
  then have "h ! a = h0 ! a" using e by (simp add: extends_def)
  then show ?thesis using a extends_length[OF e] by (simp add: lookup_def)
qed

lemma extends_pushString: "length h0 \<le> a \<Longrightarrow> extends h0 h \<Longrightarrow> extends h0 (pushString h a s)"
  by (auto simp: pushString_def extends_store split: option.splits obj.splits)

lemma extends_pushIssue: "length h0 \<le> a \<Longrightarrow> extends h0 h \<Longrightarrow> extends h0 (pushIssue h a e)"
  by (auto simp: pushIssue_def extends_store split: option.splits obj.splits)

lemma extends_pushSuggestion:
  "length h0 \<le> a \<Longrightarrow> extends h0 h \<Longrightarrow> extends h0 (pushSuggestion h a e)"
  by (auto simp: pushSuggestion_def extends_store split: option.splits obj.splits)

lemma extends_setString: "length h0 \<le> a \<Longrightarrow> extends h0 h \<Longrightarrow> extends h0 (setString h a k v)"
  by (auto simp: setString_def extends_store split: option.splits obj.splits)

lemma extends_setRef: "length h0 \<le> a \<Longrightarrow> extends h0 h \<Longrightarrow> extends h0 (setRef h a k v)"
  by (auto simp: setRef_def extends_store split: option.splits obj.splits)

lemma extends_foldl:
  assumes "\<And>h x. extends h0 h \<Longrightarrow> extends h0 (f h x)"
  shows "extends h0 h \<Longrightarrow> extends h0 (foldl f h xs)"
  by (induction xs arbitrary: h) (simp_all add: assms)

lemma extends_newStrings: "extends h (fst (newStrings h xs))"
proof -
  have base: "extends h (h @ [StringArray []])" by (simp add: extends_def)
  have "extends h (foldl (\<lambda>h' s. pushString h' (length h) s) (h @ [StringArray []]) xs)"
    by (rule extends_foldl[OF _ base]) (rule extends_pushString, simp_all)
  then show ?thesis by (simp add: newStrings_def alloc_def)
qed

lemma extends_newIssues: "extends h (fst (newIssues h xs))"
proof -
  have base: "extends h (h @ [IssueArray []])" by (simp add: extends_def)
  have "extends h (foldl (\<lambda>h' e. pushIssue h' (length h) e) (h @ [IssueArray []]) xs)"
    by (rule extends_foldl[OF _ base]) (rule extends_pushIssue, simp_all)
  then show ?thesis by (simp add: newIssues_def alloc_def)
qed

lemma extends_newSuggestions: "extends h (fst (newSuggestions h xs))"
proof -
  have base: "extends h (h @ [SuggestionArray []])" by (simp add: extends_def)
  have "extends h (foldl (\<lambda>h' e. pushSuggestion h' (length h) e) (h @ [SuggestionArray []]) xs)"
    by (rule extends_foldl[OF _ base]) (rule extends_pushSuggestion, simp_all)
  then show ?thesis by (simp add: newSuggestions_def alloc_def)
qed

lemma ext_alloc: "extends h0 h \<Longrightarrow> extends h0 (fst (alloc h ob))"
  by (rule extends_trans[OF _ extends_alloc])

lemma ext_newStrings: "extends h0 h \<Longrightarrow> extends h0 (fst (newStrings h xs))"
  by (rule extends_trans[OF _ extends_newStrings])

lemma ext_newIssues: "extends h0 h \<Longrightarrow> extends h0 (fst (newIssues h xs))"
  by (rule extends_trans[OF _ extends_newIssues])

lemma ext_newSuggestions: "extends h0 h \<Longrightarrow> extends h0 (fst (newSuggestions h xs))"
  by (rule extends_trans[OF _ extends_newSuggestions])

lemma snd_alloc: "snd (alloc h ob) = length h"
  by (simp add: alloc_def)

lemma snd_newStrings: "snd (newStrings h xs) = length h"
  by (simp add: newStrings_def alloc_def)

lemma snd_newIssues: "snd (newIssues h xs) = length h"
  by (simp add: newIssues_def alloc_def)

lemma snd_newSuggestions: "snd (newSuggestions h xs) = length h"
  by (simp add: newSuggestions_def alloc_def)

lemma ext_analyzeRuleContent_h:
  "extends h0 h \<Longrightarrow> extends h0 (fst (analyzeRuleContent_h h content))"
  unfolding analyzeRuleContent_h_def Let_def case_prod_beta
  by (intro ext_alloc ext_newStrings)

lemma ext_analyzeMetadata_h: "extends h0 h \<Longrightarrow> extends h0 (fst (analyzeMetadata_h h ma))"
  unfolding analyzeMetadata_h_def Let_def case_prod_beta
  by (intro ext_alloc ext_newStrings)

lemma ext_if:
  "extends h0 (fst a) \<Longrightarrow> extends h0 (fst b) \<Longrightarrow> extends h0 (fst (if c then a else b))"
  by simp

lemma ext_detectAbstractionType_h:
  "extends h0 h \<Longrightarrow> extends h0 (fst (detectAbstractionType_h h rb))"
  unfolding detectAbstractionType_h_def Let_def case_prod_beta
  by (intro ext_if ext_alloc ext_newStrings ext_analyzeRuleContent_h ext_analyzeMetadata_h)

lemma ext_newResult: "extends h0 h \<Longrightarrow> extends h0 (fst (newResult h r))"
  unfolding newResult_def case_prod_beta
  by (intro ext_alloc ext_newIssues ext_newSuggestions)

lemma ext_returnResult: "extends h0 h \<Longrightarrow> extends h0 (fst (returnResult h r))"
  unfolding returnResult_def case_prod_beta by (simp add: ext_newResult)

lemma ext_validateSkill_h: "extends h0 h \<Longrightarrow> extends h0 (fst (validateSkill_h h ma c))"
  by (simp add: validateSkill_h_def ext_returnResult split: sum.splits)

lemma ext_validateRule_h: "extends h0 h \<Longrightarrow> extends h0 (fst (validateRule_h h ma c))"
  by (simp add: validateRule_h_def ext_returnResult split: sum.splits)

lemma ext_validateCommand_h: "extends h0 h \<Longrightarrow> extends h0 (fst (validateCommand_h h ma c))"
  by (simp add: validateCommand_h_def ext_returnResult ext_newIssues ext_newSuggestions
      case_prod_beta split: sum.splits)

lemma ext_validateSubAgent_h: "extends h0 h \<Longrightarrow> extends h0 (fst (validateSubAgent_h h ma c))"
proof -
  assume e: "extends h0 h"
  obtain e3 w2 s2 where f: "subAgentFindings (loadMetadata h ma) c = (e3, w2, s2)"
    by (metis prod_cases3)
  let ?h3 = "fst (newSuggestions (fst (newIssues (fst (newIssues h e3)) w2)) s2)"
  let ?sa = "snd (newSuggestions (fst (newIssues (fst (newIssues h e3)) w2)) s2)"
  have h3: "extends h0 ?h3" by (intro ext_newSuggestions ext_newIssues e)
  have "length h0 \<le> length h" by (rule extends_length[OF e])
  also have "\<dots> \<le> length (fst (newIssues (fst (newIssues h e3)) w2))"
    by (intro extends_length ext_newIssues extends_refl)
  finally have sa: "length h0 \<le> ?sa" by (simp add: snd_newSuggestions)
  show ?thesis
    unfolding validateSubAgent_h_def Let_def f prod.case case_prod_beta
    by (simp add: h3 ext_alloc extends_pushSuggestion[OF sa h3])
qed

lemma ext_routeToSpecificValidator_h:
  "extends h0 h \<Longrightarrow> extends h0 (fst (routeToSpecificValidator_h h t ma c))"
  by (simp add: routeToSpecificValidator_h_def ext_validateSkill_h ext_validateSubAgent_h
      ext_validateCommand_h ext_validateRule_h ext_returnResult)

lemma lookup_alloc: "lookup (fst (alloc h ob)) (snd (alloc h ob)) = Some ob"
  by (simp add: alloc_def lookup_def)

lemma freshResult_newResult: "freshResult h (fst (newResult h r)) (snd (newResult h r))"
proof -
  have "length h \<le> length (fst (newIssues h (errors r)))"
    by (intro extends_length ext_newIssues extends_refl)
  then show ?thesis
    unfolding newResult_def case_prod_beta freshResult_def lookup_alloc
    by (simp add: snd_newIssues)
qed

lemma freshResult_returnResult:
  "returnResult h r = (h', Inr ra) \<Longrightarrow> freshResult h h' ra"
  using freshResult_newResult[of h r] by (auto simp: returnResult_def case_prod_beta)

lemma freshResult_validateSkill_h:
  "validateSkill_h h ma c = (h', Inr ra) \<Longrightarrow> freshResult h h' ra"
  by (auto simp: validateSkill_h_def split: sum.splits dest: freshResult_returnResult)

lemma freshResult_validateRule_h:
  "validateRule_h h ma c = (h', Inr ra) \<Longrightarrow> freshResult h h' ra"
  by (auto simp: validateRule_h_def split: sum.splits dest: freshResult_returnResult)

lemma freshResult_validateCommand_h:
  "validateCommand_h h ma c = (h', Inr ra) \<Longrightarrow> freshResult h h' ra"
  by (auto simp: validateCommand_h_def case_prod_beta split: sum.splits dest: freshResult_returnResult)

lemma freshResult_validateSubAgent_h:
  assumes "validateSubAgent_h h ma c = (h', Inr ra)"
  shows "freshResult h h' ra"
proof -
  obtain e3 w2 s2 where f: "subAgentFindings (loadMetadata h ma) c = (e3, w2, s2)"
    by (metis prod_cases3)
  have le: "length h \<le> length (fst (newIssues h e3))"
    by (intro extends_length ext_newIssues extends_refl)
  show ?thesis
    using assms le
    unfolding validateSubAgent_h_def Let_def f prod.case case_prod_beta freshResult_def
    by (auto simp: lookup_alloc snd_newIssues split: if_splits)
qed

lemma freshResult_route:
  "routeToSpecificValidator_h h t ma c = (h', Inr ra) \<Longrightarrow> freshResult h h' ra"
  by (auto simp: routeToSpecificValidator_h_def split: if_splits
      dest: freshResult_validateSkill_h freshResult_validateSubAgent_h
        freshResult_validateCommand_h freshResult_validateRule_h freshResult_returnResult)

lemma freshResult_later:
  assumes "freshResult h h2 r" "extends h2 h5"
  shows "length h \<le> warningsOf h5 r"
proof -
  have "r < length h2" using assms(1) by (auto simp: freshResult_def lookup_def split: if_splits)
  then have "lookup h5 r = lookup h2 r" by (rule extends_lookup[OF assms(2)])
  then show ?thesis
    using assms(1) by (auto simp: freshResult_def warningsOf_def split: option.splits obj.splits)
qed

lemma ext_validateAnyAbstraction_h:
  assumes e: "extends h0 h"
  shows "extends h0 (fst (validateAnyAbstraction_h h md ct))"
proof (cases md)
  case (Defined ma)
  show ?thesis
  proof (cases ct)
    case ct: (Defined c)
    let ?m = "loadMetadata h ma"
    let ?first = "if truthy (type_m ?m) then (h, the (type_m ?m))
                  else (case alloc h (RuleBlockObj ma c) of
                          (h', ruleBlock) \<Rightarrow>
                            (fst (detectAbstractionType_h h' ruleBlock),
                             ati_type (detectAbstractionType ?m c)))"
    obtain h1 t where first: "?first = (h1, t)" by (cases ?first) auto
    have e1: "extends h0 h1"
    proof (cases "truthy (type_m ?m)")
      case True
      then show ?thesis using first e by simp
    next
      case False
      then have "h1 = fst (detectAbstractionType_h (fst (alloc h (RuleBlockObj ma c)))
                       (snd (alloc h (RuleBlockObj ma c))))"
        using first by (simp add: case_prod_beta)
      then show ?thesis by (simp add: ext_detectAbstractionType_h ext_alloc e)
    qed
    note step = validateAnyAbstraction_h_def[of h md ct, unfolded Defined ct nullable.case Let_def first prod.case]
    obtain h2 out where route: "routeToSpecificValidator_h h1 t ma c = (h2, out)"
      by (cases "routeToSpecificValidator_h h1 t ma c") auto
    have e2: "extends h0 h2"
      using ext_routeToSpecificValidator_h[OF e1, of t ma c] route by simp
    show ?thesis
    proof (cases out)
      case (Inl err)
      then show ?thesis
        using e2 by (simp add: Defined ct step route)
    next
      case (Inr result)
      show ?thesis
      proof (cases "truthy (type_m ?m)")
        case False
        then show ?thesis
          using e2 by (simp add: Defined ct step route Inr)
      next
        case True
        let ?a3 = "alloc h2 (MetadataObj ((loadMetadataObj h2 ma)\<lparr>o_type := None\<rparr>))"
        let ?a4 = "alloc (fst ?a3) (RuleBlockObj (snd ?a3) c)"
        let ?d5 = "detectAbstractionType_h (fst ?a4) (snd ?a4)"
        have e25: "extends h2 (fst ?d5)"
          by (intro ext_detectAbstractionType_h ext_alloc extends_refl)
        have e5: "extends h0 (fst ?d5)" by (rule extends_trans[OF e2 e25])
        have fr: "freshResult h1 h2 result"
          using route Inr by (auto dest: freshResult_route)
        have "length h0 \<le> length h1" by (rule extends_length[OF e1])
        then have w: "length h0 \<le> warningsOf (fst ?d5) result"
          using freshResult_later[OF fr e25] by simp
        have push: "\<And>x. extends h0 (pushIssue (fst ?d5) (warningsOf (fst ?d5) result) x)"
          by (rule extends_pushIssue[OF w e5])
        show ?thesis
          using True e5 push
          by (simp add: Defined ct step route Inr case_prod_beta)
      qed
    qed
  qed (simp_all add: validateAnyAbstraction_h_def Defined ext_returnResult e)
qed (simp_all add: validateAnyAbstraction_h_def ext_returnResult e)

lemma ext_indexStep_h:
  assumes "length h0 \<le> e" "length h0 \<le> ct" "length h0 \<le> dg" "extends h0 h"
  shows "extends h0 (indexStep_h e ct dg h x)"
proof -
  have h1: "extends h0 (case o_dependencies (loadMetadataObj h (fst x)) of
                  Some deps \<Rightarrow> setRef h dg (o_id (loadMetadataObj h (fst x))) deps
                | None \<Rightarrow> h)"
    using assms by (simp add: extends_setRef split: option.splits)
  show ?thesis
    unfolding indexStep_h_def Let_def
    using assms(1,2) h1 by (simp add: extends_pushIssue extends_setString)
qed

lemma ext_invalidStep:
  "length h0 \<le> e \<Longrightarrow> extends h0 h \<Longrightarrow> extends h0 (invalidStep e ids h x)"
  by (simp add: invalidStep_def Let_def extends_pushIssue)

lemma ext_warnStep:
  "length h0 \<le> w \<Longrightarrow> extends h0 h \<Longrightarrow> extends h0 (warnStep w h x)"
  by (simp add: warnStep_def Let_def extends_pushIssue)

lemma list_all_mapSet:
  "list_all P ps \<Longrightarrow> P (k, v) \<Longrightarrow> list_all P (mapSet k v ps)"
  by (induction ps) auto

lemma lookup_store:
  "lookup (store h a ob) b = (if a = b \<and> a < length h then Some ob else lookup h b)"
  by (simp add: lookup_def store_def)

lemma loadRefMap_pushString: "loadRefMap (pushString h a s) b = loadRefMap h b"
proof (cases "\<exists>xs. lookup h a = Some (StringArray xs)")
  case True
  then obtain xs where xs: "lookup h a = Some (StringArray xs)" by blast
  then have p: "pushString h a s = store h a (StringArray (xs @ [s]))"
    by (simp add: pushString_def)
  have lt: "a < length h" using xs by (simp add: lookup_def split: if_splits)
  show ?thesis
  proof (cases "a = b")
    case True
    have "loadRefMap (store h a (StringArray (xs @ [s]))) a = []"
      using lt by (simp add: loadRefMap_def lookup_store)
    moreover have "loadRefMap h a = []" using xs by (simp add: loadRefMap_def)
    ultimately show ?thesis unfolding p using True by simp
  next
    case False
    then show ?thesis unfolding p by (simp add: loadRefMap_def lookup_store)
  qed
next
  case False
  then have "pushString h a s = h"
    by (auto simp: pushString_def split: option.splits obj.splits)
  then show ?thesis by simp
qed

lemma lookup_alloc_old: "lookup (fst (alloc h ob)) b = (if b = length h then Some ob else lookup h b)"
  by (simp add: lookup_def alloc_def nth_append)

lemma loadRefMap_alloc_strings:
  "loadRefMap (fst (alloc h (StringArray xs))) b = loadRefMap h b"
  by (simp add: loadRefMap_def lookup_alloc_old) (simp add: lookup_def)

lemma loadRefMap_setRef:
  assumes "list_all P (loadRefMap h b)" "P (k, v)"
  shows "list_all P (loadRefMap (setRef h a k v) b)"
proof (cases "\<exists>ps. lookup h a = Some (RefMap ps)")
  case True
  then obtain ps where ps: "lookup h a = Some (RefMap ps)" by blast
  then have p: "setRef h a k v = store h a (RefMap (mapSet k v ps))"
    by (simp add: setRef_def)
  have lt: "a < length h" using ps by (simp add: lookup_def split: if_splits)
  show ?thesis
  proof (cases "a = b")
    case True
    then have "list_all P ps" using assms(1) ps by (simp add: loadRefMap_def)
    then have "list_all P (loadRefMap (store h a (RefMap (mapSet k v ps))) a)"
      using lt assms(2) by (simp add: loadRefMap_def lookup_store list_all_mapSet)
    then show ?thesis unfolding p using True by simp
  next
    case False
    then show ?thesis unfolding p using assms(1) by (simp add: loadRefMap_def lookup_store)
  qed
next
  case False
  then have "setRef h a k v = h"
    by (auto simp: setRef_def split: option.splits obj.splits)
  then show ?thesis using assms(1) by simp
qed

lemma freshValues_addScope_h:
  assumes os: "length h0 \<le> os" and f: "freshValues h0 h os"
  shows "freshValues h0 (addScope_h os ruleId h sc) os"
proof -
  let ?P = "\<lambda>entry :: string \<times> addr. length h0 \<le> snd entry"
  let ?h1 = "case map_of (loadRefMap h os) sc of
               None \<Rightarrow> (case alloc h (StringArray []) of (h', a) \<Rightarrow> setRef h' os sc a)
             | Some a \<Rightarrow> h"
  have e: "extends h0 h" and v: "list_all ?P (loadRefMap h os)"
    using f by (simp_all add: freshValues_def)
  have len: "length h0 \<le> length h" by (rule extends_length[OF e])
  have f1: "freshValues h0 ?h1 os"
  proof (cases "map_of (loadRefMap h os) sc")
    case None
    have "extends h0 (setRef (fst (alloc h (StringArray []))) os sc (length h))"
      by (intro extends_setRef os ext_alloc e)
    moreover have "list_all ?P (loadRefMap (setRef (fst (alloc h (StringArray []))) os sc (length h)) os)"
      by (rule loadRefMap_setRef) (simp_all add: loadRefMap_alloc_strings v len)
    ultimately show ?thesis
      using None by (simp add: freshValues_def case_prod_beta snd_alloc)
  next
    case (Some a)
    then show ?thesis using f by simp
  qed
  have e1: "extends h0 ?h1" and v1: "list_all ?P (loadRefMap ?h1 os)"
    using f1 by (simp_all add: freshValues_def)
  show ?thesis
  proof (cases "map_of (loadRefMap ?h1 os) sc")
    case None
    then show ?thesis using f1 by (simp add: addScope_h_def Let_def)
  next
    case (Some a)
    then have "(sc, a) \<in> set (loadRefMap ?h1 os)" by (rule map_of_SomeD)
    then have "length h0 \<le> a" using v1 by (auto simp: list_all_iff)
    then have "extends h0 (pushString ?h1 a ruleId)" by (rule extends_pushString[OF _ e1])
    then show ?thesis
      using Some v1 by (simp add: addScope_h_def Let_def freshValues_def loadRefMap_pushString)
  qed
qed

lemma freshValues_foldl:
  assumes "\<And>h x. freshValues h0 h os \<Longrightarrow> freshValues h0 (f h x) os"
  shows "freshValues h0 h os \<Longrightarrow> freshValues h0 (foldl f h xs) os"
  by (induction xs arbitrary: h) (simp_all add: assms)

lemma freshValues_ruleStep_h:
  "length h0 \<le> os \<Longrightarrow> freshValues h0 h os \<Longrightarrow> freshValues h0 (ruleStep_h os h r) os"
  unfolding ruleStep_h_def by (rule freshValues_foldl) (rule freshValues_addScope_h)

lemma ext_scopeConflicts_h:
  assumes w: "length h0 \<le> w" and e: "extends h0 h"
  shows "extends h0 (scopeConflicts_h w h xs)"
proof -
  let ?os = "length h"
  let ?rules = "filter (\<lambda>a. alwaysApply (loadMetadata h (fst a)) = Some True \<and>
                        type_m (loadMetadata h (fst a)) = Some ''rule'') xs"
  have os: "length h0 \<le> ?os" by (rule extends_length[OF e])
  have "freshValues h0 (fst (alloc h (RefMap []))) ?os"
    by (simp add: freshValues_def ext_alloc e) (simp add: loadRefMap_def alloc_def lookup_def)
  then have "freshValues h0 (foldl (ruleStep_h ?os) (fst (alloc h (RefMap []))) ?rules) ?os"
    by (rule freshValues_foldl[rotated]) (rule freshValues_ruleStep_h[OF os])
  then have "extends h0 (foldl (ruleStep_h ?os) (fst (alloc h (RefMap []))) ?rules)"
    by (simp add: freshValues_def)
  then have "extends h0 (foldl (warnStep w) (foldl (ruleStep_h ?os) (fst (alloc h (RefMap []))) ?rules)
       (loadRefMap (foldl (ruleStep_h ?os) (fst (alloc h (RefMap []))) ?rules) ?os))"
    by (rule extends_foldl[rotated]) (rule ext_warnStep[OF w])
  then show ?thesis
    using e by (simp add: scopeConflicts_h_def Let_def case_prod_beta snd_alloc)
qed

lemma ext_validateAbstractionGroup_h:
  assumes e: "extends h0 h"
  shows "extends h0 (fst (validateAbstractionGroup_h h batch))"
proof -
  let ?xs = "loadBatch h batch"
  let ?h1 = "fst (alloc h (IssueArray []))"
  let ?h2 = "fst (alloc ?h1 (IssueArray []))"
  let ?h3 = "fst (alloc ?h2 (SuggestionArray []))"
  let ?h4 = "fst (alloc ?h3 (StringMap []))"
  let ?h5 = "fst (alloc ?h4 (RefMap []))"
  let ?e = "length h" let ?w = "length ?h1" let ?ct = "length ?h3" let ?dg = "length ?h4"
  have l0: "length h0 \<le> ?e" by (rule extends_length[OF e])
  have e5: "extends h0 ?h5" by (intro ext_alloc e)
  have lw: "length h0 \<le> ?w" and lct: "length h0 \<le> ?ct" and ldg: "length h0 \<le> ?dg"
    using l0 by (simp_all add: alloc_def)
  let ?h6 = "foldl (indexStep_h ?e ?ct ?dg) ?h5 ?xs"
  have e6: "extends h0 ?h6"
    by (rule extends_foldl[OF _ e5]) (rule ext_indexStep_h[OF l0 lct ldg])
  let ?g = "loadGraph ?h6 ?dg"
  let ?h7 = "case findCycle ?g (map fst ?g) ({}, {}) of
               Some nodeId \<Rightarrow>
                 pushIssue ?h6 ?e
                   (mkError ''CIRCULAR_DEPENDENCY''
                      (''Circular dependency detected involving \"'' @ nodeId @ ''\"'')
                      (Some ''dependencies''))
             | None \<Rightarrow> ?h6"
  have e7: "extends h0 ?h7"
    using e6 by (simp add: extends_pushIssue[OF l0] split: option.splits)
  let ?ids = "set (map (\<lambda>a. id_m (loadMetadata ?h7 (fst a))) ?xs)"
  let ?h8 = "foldl (invalidStep ?e ?ids) ?h7 (loadRefMap ?h7 ?dg)"
  have e8: "extends h0 ?h8"
    by (rule extends_foldl[OF _ e7]) (rule ext_invalidStep[OF l0])
  have e9: "extends h0 (scopeConflicts_h ?w ?h8 ?xs)"
    by (rule ext_scopeConflicts_h[OF lw e8])
  show ?thesis
    unfolding validateAbstractionGroup_h_def Let_def case_prod_beta snd_alloc
    by (rule ext_alloc[OF e9])
qed

text \<open>
  C9.  Whatever the store and the arguments, the classifier, the two analyses, the four
  category validators, the dispatcher and the group validator leave every object that
  existed before the call as it was: the metadata objects and their arrays, the
  documents and the batch.  The dispatcher strips \<open>type\<close> in an object it creates.  The
  content is a string, a value that no statement can write to.
\<close>

theorem C9_inputs_not_mutated:
  "extends h (fst (analyzeRuleContent_h h content)) \<and>
   extends h (fst (analyzeMetadata_h h ma)) \<and>
   extends h (fst (detectAbstractionType_h h ruleBlock)) \<and>
   extends h (fst (validateSkill_h h ma content)) \<and>
   extends h (fst (validateSubAgent_h h ma content)) \<and>
   extends h (fst (validateCommand_h h ma content)) \<and>
   extends h (fst (validateRule_h h ma content)) \<and>
   extends h (fst (validateAnyAbstraction_h h metadata nullableContent)) \<and>
   extends h (fst (validateAbstractionGroup_h h batch))"
  by (intro conjI ext_analyzeRuleContent_h ext_analyzeMetadata_h ext_detectAbstractionType_h
      ext_validateSkill_h ext_validateSubAgent_h ext_validateCommand_h ext_validateRule_h
      ext_validateAnyAbstraction_h ext_validateAbstractionGroup_h extends_refl)

section \<open>The operations on the store compute the results of the functions\<close>

lemma length_store: "length (store h a ob) = length h"
  by (simp add: store_def)

lemma length_pushIssue: "length (pushIssue h a e) = length h"
  by (auto simp: pushIssue_def length_store split: option.splits obj.splits)

lemma length_pushString: "length (pushString h a e) = length h"
  by (auto simp: pushString_def length_store split: option.splits obj.splits)

lemma length_pushSuggestion: "length (pushSuggestion h a e) = length h"
  by (auto simp: pushSuggestion_def length_store split: option.splits obj.splits)

lemma lookup_pushIssue_same:
  "lookup h a = Some (IssueArray ys) \<Longrightarrow> lookup (pushIssue h a e) a = Some (IssueArray (ys @ [e]))"
  by (simp add: pushIssue_def lookup_store) (simp add: lookup_def split: if_splits)

lemma lookup_pushString_same:
  "lookup h a = Some (StringArray ys) \<Longrightarrow> lookup (pushString h a e) a = Some (StringArray (ys @ [e]))"
  by (simp add: pushString_def lookup_store) (simp add: lookup_def split: if_splits)

lemma lookup_pushSuggestion_same:
  "lookup h a = Some (SuggestionArray ys) \<Longrightarrow>
     lookup (pushSuggestion h a e) a = Some (SuggestionArray (ys @ [e]))"
  by (simp add: pushSuggestion_def lookup_store) (simp add: lookup_def split: if_splits)

lemma foldl_pushIssue:
  "lookup h a = Some (IssueArray ys) \<Longrightarrow>
     lookup (foldl (\<lambda>h' e. pushIssue h' a e) h xs) a = Some (IssueArray (ys @ xs))"
  by (induction xs arbitrary: h ys) (simp_all add: lookup_pushIssue_same)

lemma foldl_pushString:
  "lookup h a = Some (StringArray ys) \<Longrightarrow>
     lookup (foldl (\<lambda>h' e. pushString h' a e) h xs) a = Some (StringArray (ys @ xs))"
  by (induction xs arbitrary: h ys) (simp_all add: lookup_pushString_same)

lemma foldl_pushSuggestion:
  "lookup h a = Some (SuggestionArray ys) \<Longrightarrow>
     lookup (foldl (\<lambda>h' e. pushSuggestion h' a e) h xs) a = Some (SuggestionArray (ys @ xs))"
  by (induction xs arbitrary: h ys) (simp_all add: lookup_pushSuggestion_same)

lemma newIssues_holds: "lookup (fst (newIssues h xs)) (snd (newIssues h xs)) = Some (IssueArray xs)"
  using foldl_pushIssue[of "h @ [IssueArray []]" "length h" "[]" xs]
  by (simp add: newIssues_def alloc_def lookup_def)

lemma newStrings_holds: "lookup (fst (newStrings h xs)) (snd (newStrings h xs)) = Some (StringArray xs)"
  using foldl_pushString[of "h @ [StringArray []]" "length h" "[]" xs]
  by (simp add: newStrings_def alloc_def lookup_def)

lemma newSuggestions_holds:
  "lookup (fst (newSuggestions h xs)) (snd (newSuggestions h xs)) = Some (SuggestionArray xs)"
  using foldl_pushSuggestion[of "h @ [SuggestionArray []]" "length h" "[]" xs]
  by (simp add: newSuggestions_def alloc_def lookup_def)

lemma lookup_Some_less: "lookup h a = Some ob \<Longrightarrow> a < length h"
  by (simp add: lookup_def split: if_splits)

lemma extends_holds: "extends h h' \<Longrightarrow> lookup h a = Some ob \<Longrightarrow> lookup h' a = Some ob"
  using extends_lookup[of h h' a] lookup_Some_less[of h a ob] by simp

lemma loadResult_newResult: "loadResult (fst (newResult h r)) (snd (newResult h r)) = r"
proof -
  let ?n1 = "newIssues h (errors r)"
  let ?n2 = "newIssues (fst ?n1) (warnings r)"
  let ?n3 = "newSuggestions (fst ?n2) (suggestions r)"
  let ?h4 = "fst (alloc (fst ?n3) (ResultObj (valid r) (snd ?n1) (snd ?n2) (snd ?n3)))"
  have x3: "extends (fst ?n3) ?h4" by (rule extends_alloc)
  have x2: "extends (fst ?n2) ?h4" by (intro ext_alloc ext_newSuggestions extends_refl)
  have x1: "extends (fst ?n1) ?h4" by (intro ext_alloc ext_newSuggestions ext_newIssues extends_refl)
  have e: "lookup ?h4 (snd ?n1) = Some (IssueArray (errors r))"
    by (rule extends_holds[OF x1 newIssues_holds])
  have w: "lookup ?h4 (snd ?n2) = Some (IssueArray (warnings r))"
    by (rule extends_holds[OF x2 newIssues_holds])
  have s: "lookup ?h4 (snd ?n3) = Some (SuggestionArray (suggestions r))"
    by (rule extends_holds[OF x3 newSuggestions_holds])
  show ?thesis
    unfolding newResult_def case_prod_beta loadResult_def lookup_alloc
    by (simp add: loadIssues_def loadSuggestions_def e w s)
qed

lemma loadOutcome_returnResult:
  "loadOutcome (fst (returnResult h r)) (snd (returnResult h r)) = Inr r"
  by (simp add: returnResult_def case_prod_beta loadOutcome_def loadResult_newResult)

lemma validateSkill_h_result:
  "loadOutcome (fst (validateSkill_h h ma c)) (snd (validateSkill_h h ma c)) =
     validateSkill (loadMetadata h ma) c"
  by (cases "validateSkill (loadMetadata h ma) c")
     (simp_all add: validateSkill_h_def loadOutcome_returnResult, simp add: loadOutcome_def)

lemma validateRule_h_result:
  "loadOutcome (fst (validateRule_h h ma c)) (snd (validateRule_h h ma c)) =
     validateRule (loadMetadata h ma) c"
  by (cases "validateRule (loadMetadata h ma) c")
     (simp_all add: validateRule_h_def loadOutcome_returnResult, simp add: loadOutcome_def)

lemma validateCommand_h_result:
  "loadOutcome (fst (validateCommand_h h ma c)) (snd (validateCommand_h h ma c)) =
     validateCommand (loadMetadata h ma) c"
  by (cases "validateCommand (loadMetadata h ma) c")
     (simp_all add: validateCommand_h_def loadOutcome_returnResult case_prod_beta,
      simp add: loadOutcome_def)

lemma validateSubAgent_h_result:
  "loadOutcome (fst (validateSubAgent_h h ma c)) (snd (validateSubAgent_h h ma c)) =
     validateSubAgent (loadMetadata h ma) c"
proof -
  obtain e3 w2 s2 where f: "subAgentFindings (loadMetadata h ma) c = (e3, w2, s2)"
    by (metis prod_cases3)
  let ?n1 = "newIssues h e3"
  let ?n2 = "newIssues (fst ?n1) w2"
  let ?n3 = "newSuggestions (fst ?n2) s2"
  let ?sug = "mkSuggestion ''SUBAGENT_TOO_MANY_TOOLS''
                ''Consider reducing tool scope for better focus and performance''
                (Some ''tools'') True"
  let ?h4 = "pushSuggestion (fst ?n3) (snd ?n3) ?sug"
  let ?h5 = "fst (alloc ?h4 (ResultObj (length e3 = 0) (snd ?n1) (snd ?n2) (snd ?n3)))"
  have n12: "snd ?n1 \<noteq> snd ?n3" "snd ?n2 \<noteq> snd ?n3"
  proof -
    have "length h < length (fst ?n1)"
      using lookup_Some_less[OF newIssues_holds[of h e3]] by (simp add: snd_newIssues)
    moreover have "length (fst ?n1) < length (fst ?n2)"
      using lookup_Some_less[OF newIssues_holds[of "fst ?n1" w2]] by (simp add: snd_newIssues)
    ultimately show "snd ?n1 \<noteq> snd ?n3" "snd ?n2 \<noteq> snd ?n3"
      by (simp_all add: snd_newIssues snd_newSuggestions)
  qed
  have x13: "extends (fst ?n1) (fst ?n3)" by (intro ext_newSuggestions ext_newIssues extends_refl)
  have x23: "extends (fst ?n2) (fst ?n3)" by (intro ext_newSuggestions extends_refl)
  have e3': "lookup (fst ?n3) (snd ?n1) = Some (IssueArray e3)"
    by (rule extends_holds[OF x13 newIssues_holds])
  have w3': "lookup (fst ?n3) (snd ?n2) = Some (IssueArray w2)"
    by (rule extends_holds[OF x23 newIssues_holds])
  have s3': "lookup (fst ?n3) (snd ?n3) = Some (SuggestionArray s2)"
    by (rule newSuggestions_holds)
  have p: "?h4 = store (fst ?n3) (snd ?n3) (SuggestionArray (s2 @ [?sug]))"
    by (simp add: pushSuggestion_def s3')
  have e4: "lookup ?h4 (snd ?n1) = Some (IssueArray e3)"
    unfolding p using n12 e3' by (simp add: lookup_store)
  have w4: "lookup ?h4 (snd ?n2) = Some (IssueArray w2)"
    unfolding p using n12 w3' by (simp add: lookup_store)
  have s4: "lookup ?h4 (snd ?n3) = Some (SuggestionArray (s2 @ [?sug]))"
    by (rule lookup_pushSuggestion_same[OF s3'])
  define res where "res = alloc ?h4 (ResultObj (length e3 = 0) (snd ?n1) (snd ?n2) (snd ?n3))"
  have x45: "extends ?h4 (fst res)" unfolding res_def by (rule extends_alloc)
  have lr: "lookup (fst res) (snd res) = Some (ResultObj (length e3 = 0) (snd ?n1) (snd ?n2) (snd ?n3))"
    unfolding res_def by (rule lookup_alloc)
  have r5: "loadResult (fst res) (snd res)
      = \<lparr>valid = (length e3 = 0), errors = e3, warnings = w2, suggestions = s2 @ [?sug]\<rparr>"
    by (simp add: loadResult_def lr loadIssues_def loadSuggestions_def extends_holds[OF x45 e4]
        extends_holds[OF x45 w4] extends_holds[OF x45 s4])
  show ?thesis
    unfolding validateSubAgent_h_def validateSubAgent_def Let_def f prod.case case_prod_beta
    using r5[unfolded res_def] by (simp add: loadOutcome_def)
qed

lemma extends_loadStrings: "extends h h' \<Longrightarrow> a < length h \<Longrightarrow> loadStrings h' a = loadStrings h a"
  by (simp add: loadStrings_def extends_lookup)

lemma extends_loadArguments:
  "extends h h' \<Longrightarrow> a < length h \<Longrightarrow> loadArguments h' a = loadArguments h a"
  by (simp add: loadArguments_def extends_lookup)

lemma extends_refStrings:
  "extends h h' \<Longrightarrow> refBelow (length h) r \<Longrightarrow> map_option (loadStrings h') r = map_option (loadStrings h) r"
  by (cases r) (simp_all add: refBelow_def extends_loadStrings)

lemma extends_refArguments:
  "extends h h' \<Longrightarrow> refBelow (length h) r \<Longrightarrow>
     map_option (loadArguments h') r = map_option (loadArguments h) r"
  by (cases r) (simp_all add: refBelow_def extends_loadArguments)

lemma extends_readScope:
  assumes "extends h h'" "case sr of Some (ScopeAt a) \<Rightarrow> a < length h | _ \<Rightarrow> True"
  shows "map_option (readScope h') sr = map_option (readScope h) sr"
proof (cases sr)
  case None
  then show ?thesis by simp
next
  case (Some x)
  then show ?thesis using assms by (cases x) (simp_all add: readScope_def extends_loadStrings)
qed

lemma extends_readMetadata:
  assumes "extends h h'" "refsBelow (length h) mo"
  shows "readMetadata h' mo = readMetadata h mo"
  using assms
  by (simp add: readMetadata_def refsBelow_def extends_refStrings extends_refArguments
      extends_readScope)

lemma extends_loadMetadata:
  assumes "extends h h'" "wellFormedAt h ma"
  shows "loadMetadataObj h' ma = loadMetadataObj h ma" and "loadMetadata h' ma = loadMetadata h ma"
proof -
  obtain mo where mo: "lookup h ma = Some (MetadataObj mo)" "refsBelow (length h) mo"
    using assms(2) by (auto simp: wellFormedAt_def split: option.splits obj.splits)
  have l: "lookup h' ma = Some (MetadataObj mo)" by (rule extends_holds[OF assms(1) mo(1)])
  show "loadMetadataObj h' ma = loadMetadataObj h ma"
    by (simp add: loadMetadataObj_def l mo(1))
  then show "loadMetadata h' ma = loadMetadata h ma"
    using extends_readMetadata[OF assms(1) mo(2)]
    by (simp add: loadMetadata_def loadMetadataObj_def mo(1))
qed

lemma readMetadata_without_type:
  "readMetadata h (mo\<lparr>o_type := None\<rparr>) = (readMetadata h mo)\<lparr>type_m := None\<rparr>"
  by (simp add: readMetadata_def)

lemma isIssueArrayD: "isIssueArray h a \<Longrightarrow> \<exists>es. lookup h a = Some (IssueArray es)"
  unfolding isIssueArray_def by (cases "lookup h a") (auto split: obj.splits)

lemma isSuggestionArrayD:
  "isSuggestionArray h a \<Longrightarrow> \<exists>ss. lookup h a = Some (SuggestionArray ss)"
  unfolding isSuggestionArray_def by (cases "lookup h a") (auto split: obj.splits)

lemma goodResultD:
  "goodResult h r \<Longrightarrow>
     \<exists>v ea wa sa. lookup h r = Some (ResultObj v ea wa sa) \<and> ea \<noteq> wa \<and>
        isIssueArray h ea \<and> isIssueArray h wa \<and> isSuggestionArray h sa"
  unfolding goodResult_def by (cases "lookup h r") (auto split: obj.splits)

lemma goodResultI:
  assumes "lookup h r = Some (ResultObj v ea wa sa)" "ea \<noteq> wa"
    "lookup h ea = Some (IssueArray es)" "lookup h wa = Some (IssueArray ws)"
    "lookup h sa = Some (SuggestionArray ss)"
  shows "goodResult h r"
  using assms by (simp add: goodResult_def isIssueArray_def isSuggestionArray_def)

lemma goodResultE:
  assumes "goodResult h r"
  obtains v ea wa sa es ws ss where
    "lookup h r = Some (ResultObj v ea wa sa)" "ea \<noteq> wa"
    "lookup h ea = Some (IssueArray es)" "lookup h wa = Some (IssueArray ws)"
    "lookup h sa = Some (SuggestionArray ss)"
proof -
  obtain v ea wa sa where a: "lookup h r = Some (ResultObj v ea wa sa)" "ea \<noteq> wa"
      "isIssueArray h ea" "isIssueArray h wa" "isSuggestionArray h sa"
    using goodResultD[OF assms] by blast
  obtain es ws ss where "lookup h ea = Some (IssueArray es)" "lookup h wa = Some (IssueArray ws)"
      "lookup h sa = Some (SuggestionArray ss)"
    using isIssueArrayD[OF a(3)] isIssueArrayD[OF a(4)] isSuggestionArrayD[OF a(5)] by blast
  then show ?thesis using a(1,2) that by blast
qed

lemma goodResult_extends:
  assumes "goodResult h r" "extends h h'"
  shows "goodResult h' r" and "loadResult h' r = loadResult h r"
proof -
  obtain v ea wa sa es ws ss where l:
    "lookup h r = Some (ResultObj v ea wa sa)" "ea \<noteq> wa"
    "lookup h ea = Some (IssueArray es)" "lookup h wa = Some (IssueArray ws)"
    "lookup h sa = Some (SuggestionArray ss)"
    using assms(1) by (rule goodResultE)
  note l' = extends_holds[OF assms(2) l(1)] extends_holds[OF assms(2) l(3)]
    extends_holds[OF assms(2) l(4)] extends_holds[OF assms(2) l(5)]
  show "goodResult h' r" by (rule goodResultI[OF l'(1) l(2) l'(2,3,4)])
  show "loadResult h' r = loadResult h r"
    by (simp add: loadResult_def loadIssues_def loadSuggestions_def l l')
qed

lemma goodResult_newResult: "goodResult (fst (newResult h r)) (snd (newResult h r))"
proof -
  let ?n1 = "newIssues h (errors r)"
  let ?n2 = "newIssues (fst ?n1) (warnings r)"
  let ?n3 = "newSuggestions (fst ?n2) (suggestions r)"
  define res where "res = alloc (fst ?n3) (ResultObj (valid r) (snd ?n1) (snd ?n2) (snd ?n3))"
  have x3: "extends (fst ?n3) (fst res)" unfolding res_def by (rule extends_alloc)
  have x2: "extends (fst ?n2) (fst res)"
    unfolding res_def by (intro ext_alloc ext_newSuggestions extends_refl)
  have x1: "extends (fst ?n1) (fst res)"
    unfolding res_def by (intro ext_alloc ext_newSuggestions ext_newIssues extends_refl)
  have "length h < length (fst ?n1)"
    using lookup_Some_less[OF newIssues_holds[of h "errors r"]] by (simp add: snd_newIssues)
  then have ne: "snd ?n1 \<noteq> snd ?n2" by (simp add: snd_newIssues)
  have "goodResult (fst res) (snd res)"
  proof (rule goodResultI)
    show "lookup (fst res) (snd res) = Some (ResultObj (valid r) (snd ?n1) (snd ?n2) (snd ?n3))"
      unfolding res_def by (rule lookup_alloc)
    show "snd ?n1 \<noteq> snd ?n2" by (rule ne)
    show "lookup (fst res) (snd ?n1) = Some (IssueArray (errors r))"
      by (rule extends_holds[OF x1 newIssues_holds])
    show "lookup (fst res) (snd ?n2) = Some (IssueArray (warnings r))"
      by (rule extends_holds[OF x2 newIssues_holds])
    show "lookup (fst res) (snd ?n3) = Some (SuggestionArray (suggestions r))"
      by (rule extends_holds[OF x3 newSuggestions_holds])
  qed
  then show ?thesis unfolding res_def newResult_def case_prod_beta .
qed

lemma goodResult_returnResult:
  "returnResult h r = (h', Inr ra) \<Longrightarrow> goodResult h' ra"
  using goodResult_newResult[of h r] by (auto simp: returnResult_def case_prod_beta)

lemma goodResult_validateSkill_h:
  "validateSkill_h h ma c = (h', Inr ra) \<Longrightarrow> goodResult h' ra"
  by (auto simp: validateSkill_h_def split: sum.splits dest: goodResult_returnResult)

lemma goodResult_validateRule_h:
  "validateRule_h h ma c = (h', Inr ra) \<Longrightarrow> goodResult h' ra"
  by (auto simp: validateRule_h_def split: sum.splits dest: goodResult_returnResult)

lemma goodResult_validateCommand_h:
  "validateCommand_h h ma c = (h', Inr ra) \<Longrightarrow> goodResult h' ra"
  by (auto simp: validateCommand_h_def case_prod_beta split: sum.splits dest: goodResult_returnResult)

lemma goodResult_validateSubAgent_h:
  assumes "validateSubAgent_h h ma c = (h', Inr ra)"
  shows "goodResult h' ra"
proof -
  obtain e3 w2 s2 where f: "subAgentFindings (loadMetadata h ma) c = (e3, w2, s2)"
    by (metis prod_cases3)
  let ?n1 = "newIssues h e3"
  let ?n2 = "newIssues (fst ?n1) w2"
  let ?n3 = "newSuggestions (fst ?n2) s2"
  let ?sug = "mkSuggestion ''SUBAGENT_TOO_MANY_TOOLS''
                ''Consider reducing tool scope for better focus and performance''
                (Some ''tools'') True"
  let ?h4 = "pushSuggestion (fst ?n3) (snd ?n3) ?sug"
  define res where "res = alloc ?h4 (ResultObj (length e3 = 0) (snd ?n1) (snd ?n2) (snd ?n3))"
  have lt: "length h < length (fst ?n1)" "length (fst ?n1) < length (fst ?n2)"
    using lookup_Some_less[OF newIssues_holds[of h e3]]
      lookup_Some_less[OF newIssues_holds[of "fst ?n1" w2]] by (simp_all add: snd_newIssues)
  have n: "snd ?n1 \<noteq> snd ?n3" "snd ?n2 \<noteq> snd ?n3" "snd ?n1 \<noteq> snd ?n2"
    using lt by (simp_all add: snd_newIssues snd_newSuggestions)
  have x13: "extends (fst ?n1) (fst ?n3)" by (intro ext_newSuggestions ext_newIssues extends_refl)
  have x23: "extends (fst ?n2) (fst ?n3)" by (intro ext_newSuggestions extends_refl)
  have s3': "lookup (fst ?n3) (snd ?n3) = Some (SuggestionArray s2)"
    by (rule newSuggestions_holds)
  have p: "?h4 = store (fst ?n3) (snd ?n3) (SuggestionArray (s2 @ [?sug]))"
    by (simp add: pushSuggestion_def s3')
  have e4: "lookup ?h4 (snd ?n1) = Some (IssueArray e3)"
    unfolding p using n extends_holds[OF x13 newIssues_holds] by (simp add: lookup_store)
  have w4: "lookup ?h4 (snd ?n2) = Some (IssueArray w2)"
    unfolding p using n extends_holds[OF x23 newIssues_holds] by (simp add: lookup_store)
  have s4: "lookup ?h4 (snd ?n3) = Some (SuggestionArray (s2 @ [?sug]))"
    by (rule lookup_pushSuggestion_same[OF s3'])
  have x45: "extends ?h4 (fst res)" unfolding res_def by (rule extends_alloc)
  have g: "goodResult (fst res) (snd res)"
  proof (rule goodResultI)
    show "lookup (fst res) (snd res) = Some (ResultObj (length e3 = 0) (snd ?n1) (snd ?n2) (snd ?n3))"
      unfolding res_def by (rule lookup_alloc)
    show "snd ?n1 \<noteq> snd ?n2" by (rule n(3))
    show "lookup (fst res) (snd ?n1) = Some (IssueArray e3)" by (rule extends_holds[OF x45 e4])
    show "lookup (fst res) (snd ?n2) = Some (IssueArray w2)" by (rule extends_holds[OF x45 w4])
    show "lookup (fst res) (snd ?n3) = Some (SuggestionArray (s2 @ [?sug]))"
      by (rule extends_holds[OF x45 s4])
  qed
  show ?thesis
    using assms g[unfolded res_def]
    unfolding validateSubAgent_h_def Let_def f prod.case case_prod_beta
    by (auto split: if_splits)
qed

lemma goodResult_route:
  "routeToSpecificValidator_h h t ma c = (h', Inr ra) \<Longrightarrow> goodResult h' ra"
  by (auto simp: routeToSpecificValidator_h_def split: if_splits
      dest: goodResult_validateSkill_h goodResult_validateSubAgent_h
        goodResult_validateCommand_h goodResult_validateRule_h goodResult_returnResult)

lemma route_h_result:
  "loadOutcome (fst (routeToSpecificValidator_h h t ma c)) (snd (routeToSpecificValidator_h h t ma c)) =
     routeToSpecificValidator t (loadMetadata h ma) c"
  by (simp add: routeToSpecificValidator_h_def routeToSpecificValidator_def
      validateSkill_h_result validateSubAgent_h_result validateCommand_h_result
      validateRule_h_result loadOutcome_returnResult)

lemma loadResult_pushWarning:
  assumes "goodResult h r"
  shows "loadResult (pushIssue h (warningsOf h r) w) r =
     (loadResult h r)\<lparr>warnings := warnings (loadResult h r) @ [w]\<rparr>"
proof -
  obtain v ea wa sa es ws ss where l:
    "lookup h r = Some (ResultObj v ea wa sa)" "ea \<noteq> wa"
    "lookup h ea = Some (IssueArray es)" "lookup h wa = Some (IssueArray ws)"
    "lookup h sa = Some (SuggestionArray ss)"
    using assms by (rule goodResultE)
  have wo: "warningsOf h r = wa" by (simp add: warningsOf_def l(1))
  have p: "pushIssue h wa w = store h wa (IssueArray (ws @ [w]))"
    by (simp add: pushIssue_def l(4))
  have ne: "wa \<noteq> r" "wa \<noteq> sa" using l(1,4,5) by auto
  have lt: "wa < length h" by (rule lookup_Some_less[OF l(4)])
  show ?thesis
    unfolding wo p using l ne lt
    by (simp add: loadResult_def loadIssues_def loadSuggestions_def lookup_store)
qed

lemma loadMetadata_at:
  "lookup h a = Some (MetadataObj mo) \<Longrightarrow> loadMetadata h a = readMetadata h mo"
  by (simp add: loadMetadata_def loadMetadataObj_def)

text \<open>
  On a well-formed store the dispatcher leaves, at the address it returns, the result
  that \<open>validateAnyAbstraction\<close> computes from the metadata read before the call; and it
  raises what \<open>validateAnyAbstraction\<close> raises.
\<close>

theorem dispatcher_on_store:
  assumes wf: "case md of Defined ma \<Rightarrow> wellFormedAt h ma | _ \<Rightarrow> True"
  shows "loadOutcome (fst (validateAnyAbstraction_h h md ct)) (snd (validateAnyAbstraction_h h md ct)) =
     validateAnyAbstraction (loadNullable h md) ct"
proof (cases md)
  case (Defined ma)
  then have wfa: "wellFormedAt h ma" using wf by simp
  show ?thesis
  proof (cases ct)
    case ct: (Defined c)
    let ?m = "loadMetadata h ma"
    let ?first = "if truthy (type_m ?m) then (h, the (type_m ?m))
                  else (case alloc h (RuleBlockObj ma c) of
                          (h', ruleBlock) \<Rightarrow>
                            (fst (detectAbstractionType_h h' ruleBlock),
                             ati_type (detectAbstractionType ?m c)))"
    obtain h1 t where first: "?first = (h1, t)" by (cases ?first) auto
    note step = validateAnyAbstraction_h_def[of h md ct, unfolded Defined ct nullable.case Let_def first prod.case]
    have e1: "extends h h1"
    proof (cases "truthy (type_m ?m)")
      case True
      then show ?thesis using first by (simp add: extends_refl)
    next
      case False
      then have "h1 = fst (detectAbstractionType_h (fst (alloc h (RuleBlockObj ma c)))
                       (snd (alloc h (RuleBlockObj ma c))))"
        using first by (simp add: case_prod_beta)
      then show ?thesis by (simp add: ext_detectAbstractionType_h ext_alloc extends_refl)
    qed
    have t: "t = (if truthy (type_m ?m) then the (type_m ?m)
                  else ati_type (detectAbstractionType ?m c))"
      using first by (auto simp: case_prod_beta split: if_splits)
    have m1: "loadMetadata h1 ma = ?m" by (rule extends_loadMetadata(2)[OF e1 wfa])
    obtain h2 out where route: "routeToSpecificValidator_h h1 t ma c = (h2, out)"
      by (cases "routeToSpecificValidator_h h1 t ma c") auto
    have e12: "extends h1 h2"
      using ext_routeToSpecificValidator_h[OF extends_refl, of h1 t ma c] route by simp
    have e2: "extends h h2" by (rule extends_trans[OF e1 e12])
    have pure: "loadOutcome h2 out = routeToSpecificValidator t ?m c"
      using route_h_result[of h1 t ma c] route m1 by simp
    note pstep = validateAnyAbstraction_def[of "Defined ?m" "Defined c", unfolded nullable.case Let_def t[symmetric]]
    show ?thesis
    proof (cases out)
      case (Inl err)
      then have "routeToSpecificValidator t ?m c = Inl err" using pure by (simp add: loadOutcome_def)
      then show ?thesis
        using Inl by (simp add: Defined ct step route pstep loadNullable_def loadOutcome_def)
    next
      case (Inr result)
      then have pr: "routeToSpecificValidator t ?m c = Inr (loadResult h2 result)"
        using pure by (simp add: loadOutcome_def)
      have good2: "goodResult h2 result" using route Inr by (auto dest: goodResult_route)
      show ?thesis
      proof (cases "truthy (type_m ?m)")
        case False
        then show ?thesis
          using Inr by (simp add: Defined ct step route pstep pr loadNullable_def loadOutcome_def)
      next
        case True
        let ?mo = "loadMetadataObj h2 ma"
        let ?a3 = "alloc h2 (MetadataObj (?mo\<lparr>o_type := None\<rparr>))"
        let ?a4 = "alloc (fst ?a3) (RuleBlockObj (snd ?a3) c)"
        let ?d5 = "detectAbstractionType_h (fst ?a4) (snd ?a4)"
        have e25: "extends h2 (fst ?d5)"
          by (intro ext_detectAbstractionType_h ext_alloc extends_refl)
        have e24: "extends h2 (fst ?a4)" by (intro ext_alloc extends_refl)
        have e4: "extends h (fst ?a4)" by (rule extends_trans[OF e2 e24])
        have good5: "goodResult (fst ?d5) result" "loadResult (fst ?d5) result = loadResult h2 result"
          by (rule goodResult_extends[OF good2 e25])+
        have mo: "?mo = loadMetadataObj h ma" by (rule extends_loadMetadata(1)[OF e2 wfa])
        obtain mo0 where mo0: "lookup h ma = Some (MetadataObj mo0)" "refsBelow (length h) mo0"
          using wfa by (auto simp: wellFormedAt_def split: option.splits obj.splits)
        have "loadMetadataObj h ma = mo0" by (simp add: loadMetadataObj_def mo0(1))
        then have mo': "?mo = mo0" using mo by simp
        have "lookup (fst ?a4) (snd ?a3) = Some (MetadataObj (?mo\<lparr>o_type := None\<rparr>))"
          by (rule extends_holds[OF extends_alloc lookup_alloc])
        then have "loadMetadata (fst ?a4) (snd ?a3) = readMetadata (fst ?a4) (?mo\<lparr>o_type := None\<rparr>)"
          by (rule loadMetadata_at)
        also have "\<dots> = (readMetadata (fst ?a4) ?mo)\<lparr>type_m := None\<rparr>"
          by (rule readMetadata_without_type)
        also have "readMetadata (fst ?a4) ?mo = readMetadata h mo0"
          using extends_readMetadata[OF e4 mo0(2)] by (simp only: mo')
        also have "readMetadata h mo0 = ?m"
          by (rule loadMetadata_at[OF mo0(1), symmetric])
        finally have copy: "loadMetadata (fst ?a4) (snd ?a3) = ?m\<lparr>type_m := None\<rparr>" .
        show ?thesis
          using True Inr
          by (simp add: Defined ct step route pstep pr loadNullable_def loadOutcome_def
              case_prod_beta copy good5(2) loadResult_pushWarning[OF good5(1)])
      qed
    qed
  next
    case Null
    then show ?thesis
      using loadOutcome_returnResult
      by (simp add: Defined validateAnyAbstraction_h_def validateAnyAbstraction_def loadNullable_def)
  next
    case Undefined
    then show ?thesis
      using loadOutcome_returnResult
      by (simp add: Defined validateAnyAbstraction_h_def validateAnyAbstraction_def loadNullable_def)
  qed
next
  case Null
  then show ?thesis
    using loadOutcome_returnResult
    by (simp add: validateAnyAbstraction_h_def validateAnyAbstraction_def loadNullable_def)
next
  case Undefined
  then show ?thesis
    using loadOutcome_returnResult
    by (simp add: validateAnyAbstraction_h_def validateAnyAbstraction_def loadNullable_def)
qed

end
